theory Spec2Isabelle
  imports Main
begin

section \<open>The validation middleware: createValidationMiddleware\<close>

text \<open>
  A location is one of the three request fields the middleware touches. A schema is
  used through one method only, \<^verbatim>\<open>safeParse\<close>; its result is either
  \<^verbatim>\<open>{ success: true, data }\<close> or \<^verbatim>\<open>{ success: false, error: { issues } }\<close>.
  Values (\<open>'v\<close>) and issues (\<open>'i\<close>) are opaque.
\<close>

datatype location = Body | Query | Params

datatype ('v, 'i) safe_parse_result = Success 'v | Failure "'i list"

type_synonym ('v, 'i) schema = "'v \<Rightarrow> ('v, 'i) safe_parse_result"

text \<open>
  \<^verbatim>\<open>ValidationSchemas\<close>: an object with the optional keys body, query and params
  (both callers build it as a \<^verbatim>\<open>Record<string, ZodTypeAny>\<close>). A schema object is
  always truthy, so \<^verbatim>\<open>if (schemas.body)\<close> is the test that the key is present.
\<close>

type_synonym ('v, 'i) validation_schemas = "location \<Rightarrow> ('v, 'i) schema option"

record 'i validation_error =
  location :: location
  issues :: "'i list"

text \<open>
  The request object, as far as the middleware touches it: the three fields and, for
  each, whether an assignment to it succeeds. The package declares the peer range
  \<^verbatim>\<open>"express": "^4.18.0 || ^5.0.0"\<close>. Express 4 stores \<^verbatim>\<open>req.query\<close> as a
  plain property of the request; Express 5 defines it by a getter with no setter. The
  module is compiled with \<^verbatim>\<open>"strict": true\<close>, so it runs in strict mode, where an
  assignment to a property that has a getter only throws a TypeError.
\<close>

record 'v request =
  body :: 'v
  query :: 'v
  params :: 'v
  writable :: "location \<Rightarrow> bool"

datatype js_error = TypeError

record 'i failure_body =
  error :: string
  details :: "'i validation_error list"

text \<open>
  What a processing step does to the outside, in the order it does it: it reads a request
  field (\<^verbatim>\<open>req.body\<close> as the argument of safeParse), assigns one
  (\<^verbatim>\<open>req.body = result.data\<close>), calls \<^verbatim>\<open>res.status\<close>, calls
  \<^verbatim>\<open>res.json\<close>, or calls the continuation \<^verbatim>\<open>next()\<close>; or it ends by
  throwing, which is then its last effect.
\<close>

datatype ('v, 'i) effect =
    ReadField location
  | WriteField location 'v
  | ResStatus nat
  | ResJson "'i failure_body"
  | Next
  | Throw js_error

text \<open>
  A request handler \<^verbatim>\<open>(req, res, next) => void\<close>: from the request it receives to
  the request as it leaves it, with the effects performed, oldest first.
\<close>

type_synonym ('v, 'i) request_handler = "'v request \<Rightarrow> 'v request \<times> ('v, 'i) effect list"

fun get_field :: "location \<Rightarrow> 'v request \<Rightarrow> 'v" where
  "get_field Body r = body r"
| "get_field Query r = query r"
| "get_field Params r = params r"

fun set_field :: "location \<Rightarrow> 'v \<Rightarrow> 'v request \<Rightarrow> 'v request" where
  "set_field Body v r = r\<lparr>body := v\<rparr>"
| "set_field Query v r = r\<lparr>query := v\<rparr>"
| "set_field Params v r = r\<lparr>params := v\<rparr>"

text \<open>The state of one run of the middleware: the request, the local array
  \<^verbatim>\<open>errors\<close>, the effects so far, and the error thrown, if one was: nothing
  in the middleware catches it, so the statements after the throw are not executed.\<close>

record ('v, 'i) run =
  req :: "'v request"
  errors :: "'i validation_error list"
  trace :: "('v, 'i) effect list"
  thrown :: "js_error option"

text \<open>
  One of the three blocks of the middleware, which differ in the location only:
  \<^verbatim>\<open>
  if (schemas.body) {
    const result = schemas.body.safeParse(req.body);
    if (!result.success) {
      errors.push({ location: 'body', issues: result.error.issues });
    } else {
      req.body = result.data;
    }
  }\<close>
  The assignment \<^verbatim>\<open>req.body = result.data\<close> throws a TypeError when the field is
  not writable.
\<close>

definition check_location ::
  "location \<Rightarrow> ('v, 'i) validation_schemas \<Rightarrow> ('v, 'i) run \<Rightarrow> ('v, 'i) run" where
  "check_location loc schemas st =
     (case thrown st of
        Some e \<Rightarrow> st
      | None \<Rightarrow>
          (case schemas loc of
             None \<Rightarrow> st
           | Some s \<Rightarrow>
               (case s (get_field loc (req st)) of
                  Failure iss \<Rightarrow>
                    st\<lparr>errors := errors st @ [\<lparr>location = loc, issues = iss\<rparr>],
                       trace := trace st @ [ReadField loc]\<rparr>
                | Success d \<Rightarrow>
                    if writable (req st) loc
                    then st\<lparr>req := set_field loc d (req st),
                            trace := trace st @ [ReadField loc, WriteField loc d]\<rparr>
                    else st\<lparr>trace := trace st @ [ReadField loc],
                            thrown := Some TypeError\<rparr>)))"

text \<open>
  The middleware: body, then query, then params; then either the 400 response, with no
  call of \<^verbatim>\<open>next\<close>, or \<^verbatim>\<open>next()\<close>. A TypeError thrown by an assignment
  leaves the middleware at once: the later checks, the response and \<^verbatim>\<open>next()\<close> are
  all skipped.
\<close>

definition createValidationMiddleware ::
  "('v, 'i) validation_schemas \<Rightarrow> ('v, 'i) request_handler" where
  "createValidationMiddleware schemas rq =
     (let st0 = \<lparr>req = rq, errors = [], trace = [], thrown = None\<rparr>;
          st1 = check_location Body schemas st0;
          st2 = check_location Query schemas st1;
          st3 = check_location Params schemas st2
      in case thrown st3 of
           Some e \<Rightarrow> (req st3, trace st3 @ [Throw e])
         | None \<Rightarrow>
             if length (errors st3) > 0
             then (req st3,
                   trace st3 @ [ResStatus 400,
                                ResJson \<lparr>error = ''Validation failed'', details = errors st3\<rparr>])
             else (req st3, trace st3 @ [Next]))"

section \<open>Arrays of handlers\<close>

text \<open>
  The route helper, the fluent builder and the router wrapper each create arrays of
  handlers and push onto them, and two of them hand such an array to their caller. To
  tell a fresh array from a shared one, arrays live in a store: an address is an index
  into the store, \<^verbatim>\<open>[]\<close> allocates the next index, and \<^verbatim>\<open>push\<close> updates the
  array at an address in place. No array is ever freed.
\<close>

type_synonym 'a store = "'a list list"

definition new_array :: "'a store \<Rightarrow> nat \<times> 'a store" where
  "new_array h = (length h, h @ [[]])"

definition array_at :: "nat \<Rightarrow> 'a store \<Rightarrow> 'a list" where
  "array_at a h = (if a < length h then h ! a else [])"

definition push :: "nat \<Rightarrow> 'a list \<Rightarrow> 'a store \<Rightarrow> 'a store" where
  "push a xs h = (if a < length h then h[a := h ! a @ xs] else h)"

section \<open>The route helper: route\<close>

text \<open>\<^verbatim>\<open>ResponseSchemas\<close> maps a status code to a schema; \<^verbatim>\<open>RouteSchemas\<close> has four
  optional fields.\<close>

type_synonym ('v, 'i) response_schemas = "int \<Rightarrow> ('v, 'i) schema option"

record ('v, 'i) route_schemas =
  schemas_body :: "('v, 'i) schema option"
  schemas_query :: "('v, 'i) schema option"
  schemas_params :: "('v, 'i) schema option"
  schemas_response :: "('v, 'i) response_schemas option"

text \<open>
  \<^verbatim>\<open>RouteDefinition\<close>: the schema set, the address of the middleware array and the
  marker \<^verbatim>\<open>__brand\<close>. The field \<^verbatim>\<open>__types\<close> holds four times \<^verbatim>\<open>undefined\<close> and
  exists for the type checker only.
\<close>

record ('v, 'i) route_definition =
  schemas :: "('v, 'i) route_schemas"
  middleware :: nat
  brand :: string

definition route ::
  "('v, 'i) route_schemas \<Rightarrow> ('v, 'i) request_handler store \<Rightarrow>
   ('v, 'i) route_definition \<times> ('v, 'i) request_handler store" where
  "route rs h =
     (let (mw, h1) = new_array h;
          h2 = (if schemas_body rs \<noteq> None \<or> schemas_query rs \<noteq> None \<or> schemas_params rs \<noteq> None
                then
                  let vs0 = Map.empty;
                      vs1 = (case schemas_body rs of Some s \<Rightarrow> vs0(Body \<mapsto> s) | None \<Rightarrow> vs0);
                      vs2 = (case schemas_query rs of Some s \<Rightarrow> vs1(Query \<mapsto> s) | None \<Rightarrow> vs1);
                      vs3 = (case schemas_params rs of Some s \<Rightarrow> vs2(Params \<mapsto> s) | None \<Rightarrow> vs2)
                  in push mw [createValidationMiddleware vs3] h1
                else h1)
      in (\<lparr>schemas = rs, middleware = mw, brand = ''RouteDefinition''\<rparr>, h2))"

section \<open>The fluent builder: RouteBuilder and typedRoute\<close>

record ('v, 'i) route_builder =
  bodySchema :: "('v, 'i) schema option"
  querySchema :: "('v, 'i) schema option"
  paramsSchema :: "('v, 'i) schema option"
  responseSchemas :: "('v, 'i) response_schemas"
  middlewares :: nat

text \<open>\<^verbatim>\<open>typedRoute()\<close> is \<^verbatim>\<open>new RouteBuilder()\<close>: no schema, an empty response map and
  a new empty array \<^verbatim>\<open>middlewares\<close>.\<close>

definition typedRoute ::
  "('v, 'i) request_handler store \<Rightarrow> ('v, 'i) route_builder \<times> ('v, 'i) request_handler store" where
  "typedRoute h =
     (let (a, h1) = new_array h
      in (\<lparr>bodySchema = None, querySchema = None, paramsSchema = None,
           responseSchemas = Map.empty, middlewares = a\<rparr>, h1))"

text \<open>Every configuration method mutates the builder and returns it; only
  \<^verbatim>\<open>use\<close> touches an array.\<close>

definition RouteBuilder_body ::
  "('v, 'i) schema \<Rightarrow> ('v, 'i) route_builder \<Rightarrow> ('v, 'i) request_handler store \<Rightarrow>
   ('v, 'i) route_builder \<times> ('v, 'i) request_handler store" where
  "RouteBuilder_body schema this h = (this\<lparr>bodySchema := Some schema\<rparr>, h)"

definition RouteBuilder_query ::
  "('v, 'i) schema \<Rightarrow> ('v, 'i) route_builder \<Rightarrow> ('v, 'i) request_handler store \<Rightarrow>
   ('v, 'i) route_builder \<times> ('v, 'i) request_handler store" where
  "RouteBuilder_query schema this h = (this\<lparr>querySchema := Some schema\<rparr>, h)"

definition RouteBuilder_params ::
  "('v, 'i) schema \<Rightarrow> ('v, 'i) route_builder \<Rightarrow> ('v, 'i) request_handler store \<Rightarrow>
   ('v, 'i) route_builder \<times> ('v, 'i) request_handler store" where
  "RouteBuilder_params schema this h = (this\<lparr>paramsSchema := Some schema\<rparr>, h)"

definition RouteBuilder_response ::
  "int \<Rightarrow> ('v, 'i) schema \<Rightarrow> ('v, 'i) route_builder \<Rightarrow> ('v, 'i) request_handler store \<Rightarrow>
   ('v, 'i) route_builder \<times> ('v, 'i) request_handler store" where
  "RouteBuilder_response status schema this h =
     (this\<lparr>responseSchemas := (responseSchemas this)(status \<mapsto> schema)\<rparr>, h)"

definition RouteBuilder_use ::
  "('v, 'i) request_handler \<Rightarrow> ('v, 'i) route_builder \<Rightarrow> ('v, 'i) request_handler store \<Rightarrow>
   ('v, 'i) route_builder \<times> ('v, 'i) request_handler store" where
  "RouteBuilder_use m this h = (this, push (middlewares this) [m] h)"

text \<open>The terminal call returns the address of the array \<^verbatim>\<open>result\<close>.\<close>

definition RouteBuilder_handler ::
  "('v, 'i) request_handler \<Rightarrow> ('v, 'i) route_builder \<Rightarrow> ('v, 'i) request_handler store \<Rightarrow>
   nat \<times> ('v, 'i) request_handler store" where
  "RouteBuilder_handler fn this h =
     (let (result, h1) = new_array h;
          h2 = (if bodySchema this \<noteq> None \<or> querySchema this \<noteq> None \<or> paramsSchema this \<noteq> None
                then
                  let vs0 = Map.empty;
                      vs1 = (case bodySchema this of Some s \<Rightarrow> vs0(Body \<mapsto> s) | None \<Rightarrow> vs0);
                      vs2 = (case querySchema this of Some s \<Rightarrow> vs1(Query \<mapsto> s) | None \<Rightarrow> vs1);
                      vs3 = (case paramsSchema this of Some s \<Rightarrow> vs2(Params \<mapsto> s) | None \<Rightarrow> vs2)
                  in push result [createValidationMiddleware vs3] h1
                else h1);
          h3 = push result (array_at (middlewares this) h2) h2;
          h4 = push result [fn] h3
      in (result, h4))"

text \<open>A chain of configuration calls on one builder, in the order they are made.\<close>

datatype ('v, 'i) builder_call =
    CallBody "('v, 'i) schema"
  | CallQuery "('v, 'i) schema"
  | CallParams "('v, 'i) schema"
  | CallResponse int "('v, 'i) schema"
  | CallUse "('v, 'i) request_handler"

fun apply_call ::
  "('v, 'i) builder_call \<Rightarrow> ('v, 'i) route_builder \<times> ('v, 'i) request_handler store \<Rightarrow>
   ('v, 'i) route_builder \<times> ('v, 'i) request_handler store" where
  "apply_call (CallBody s) (this, h) = RouteBuilder_body s this h"
| "apply_call (CallQuery s) (this, h) = RouteBuilder_query s this h"
| "apply_call (CallParams s) (this, h) = RouteBuilder_params s this h"
| "apply_call (CallResponse status s) (this, h) = RouteBuilder_response status s this h"
| "apply_call (CallUse m) (this, h) = RouteBuilder_use m this h"

definition apply_calls ::
  "('v, 'i) builder_call list \<Rightarrow> ('v, 'i) route_builder \<times> ('v, 'i) request_handler store \<Rightarrow>
   ('v, 'i) route_builder \<times> ('v, 'i) request_handler store" where
  "apply_calls cs bh = fold apply_call cs bh"

section \<open>The router wrapper: createTypedRouter\<close>

text \<open>
  The wrapped methods take \<^verbatim>\<open>...handlers: unknown[]\<close>: any value at all. The values
  are told apart by \<^verbatim>\<open>typeof\<close>, by \<^verbatim>\<open>null\<close>, and by the property \<^verbatim>\<open>__brand\<close>.
  \<open>JSRouteDefinition\<close> is an object with the properties of a \<^verbatim>\<open>RouteDefinition\<close>
  (whatever its \<^verbatim>\<open>__brand\<close> holds); \<open>JSObject\<close> is any other object, one without
  a property \<^verbatim>\<open>__brand\<close>.
\<close>

datatype ('v, 'i) js_value =
    JSUndefined
  | JSNull
  | JSBoolean bool
  | JSNumber int
  | JSString string
  | JSFunction "('v, 'i) request_handler"
  | JSRouteDefinition "('v, 'i) route_definition"
  | JSObject

fun typeof :: "('v, 'i) js_value \<Rightarrow> string" where
  "typeof JSUndefined = ''undefined''"
| "typeof JSNull = ''object''"
| "typeof (JSBoolean b) = ''boolean''"
| "typeof (JSNumber n) = ''number''"
| "typeof (JSString s) = ''string''"
| "typeof (JSFunction f) = ''function''"
| "typeof (JSRouteDefinition rd) = ''object''"
| "typeof JSObject = ''object''"

text \<open>\<^verbatim>\<open>'__brand' in value\<close> and \<^verbatim>\<open>value.__brand\<close>, which the source evaluates on
  non-null objects only.\<close>

fun has_brand :: "('v, 'i) js_value \<Rightarrow> bool" where
  "has_brand (JSRouteDefinition rd) = True"
| "has_brand _ = False"

fun brand_of :: "('v, 'i) js_value \<Rightarrow> string option" where
  "brand_of (JSRouteDefinition rd) = Some (brand rd)"
| "brand_of _ = None"

definition isRouteDefinition :: "('v, 'i) js_value \<Rightarrow> bool" where
  "isRouteDefinition v \<longleftrightarrow>
     typeof v = ''object'' \<and> v \<noteq> JSNull \<and> has_brand v \<and> brand_of v = Some ''RouteDefinition''"

text \<open>
  The callback of \<^verbatim>\<open>handlers.forEach\<close>, for the array \<^verbatim>\<open>flattened\<close>:
  \<^verbatim>\<open>
  if (isRouteDefinition(handler)) {
    flattened.push(...handler.middleware);
  } else if (typeof handler === 'function') {
    flattened.push(handler as RequestHandler);
  }\<close>
\<close>

definition flatten_handler ::
  "nat \<Rightarrow> ('v, 'i) js_value \<Rightarrow> ('v, 'i) request_handler store \<Rightarrow> ('v, 'i) request_handler store" where
  "flatten_handler flattened handler h =
     (if isRouteDefinition handler then
        (case handler of
           JSRouteDefinition rd \<Rightarrow> push flattened (array_at (middleware rd) h) h
         | _ \<Rightarrow> h)
      else if typeof handler = ''function'' then
        (case handler of JSFunction f \<Rightarrow> push flattened [f] h | _ \<Rightarrow> h)
      else h)"

text \<open>
  \<open>wrap method\<close> is the function that replaces \<open>method\<close> on the router. The router's own
  method is a parameter: it receives the path and the elements of \<^verbatim>\<open>flattened\<close>.
\<close>

definition wrap ::
  "(string \<Rightarrow> ('v, 'i) request_handler list \<Rightarrow> 'r) \<Rightarrow> string \<Rightarrow> ('v, 'i) js_value list \<Rightarrow>
   ('v, 'i) request_handler store \<Rightarrow> 'r \<times> ('v, 'i) request_handler store" where
  "wrap method path handlers h =
     (let (flattened, h1) = new_array h;
          h2 = fold (flatten_handler flattened) handlers h1
      in (method path (array_at flattened h2), h2))"

datatype http_method = GET | POST | PUT | PATCH | DELETE

text \<open>\<^verbatim>\<open>createTypedRouter\<close> replaces the five methods of the router by their wrapped
  versions; \<open>router\<close> gives the five methods of the router underneath.\<close>

definition createTypedRouter ::
  "(http_method \<Rightarrow> string \<Rightarrow> ('v, 'i) request_handler list \<Rightarrow> 'r) \<Rightarrow> http_method \<Rightarrow> string \<Rightarrow>
   ('v, 'i) js_value list \<Rightarrow> ('v, 'i) request_handler store \<Rightarrow> 'r \<times> ('v, 'i) request_handler store" where
  "createTypedRouter router m = wrap (router m)"

section \<open>Vocabulary of the properties\<close>

subsection \<open>Validation\<close>

text \<open>
  What the validator answers for a location of the incoming request: nothing when the
  location has no schema, else the result of \<^verbatim>\<open>safeParse\<close> on that field.
\<close>

definition outcome ::
  "('v, 'i) validation_schemas \<Rightarrow> 'v request \<Rightarrow> location \<Rightarrow> ('v, 'i) safe_parse_result option" where
  "outcome S rq loc = (case S loc of None \<Rightarrow> None | Some s \<Rightarrow> Some (s (get_field loc rq)))"

text \<open>A location fails when it has a schema and the validator rejects its field.
  A request is assignable for a schema set when every field the validator accepts can be
  assigned, as on Express 4.\<close>

definition fails :: "('v, 'i) validation_schemas \<Rightarrow> 'v request \<Rightarrow> location \<Rightarrow> bool" where
  "fails S rq loc = (case outcome S rq loc of Some (Failure iss) \<Rightarrow> True | _ \<Rightarrow> False)"

definition can_assign :: "('v, 'i) validation_schemas \<Rightarrow> 'v request \<Rightarrow> location \<Rightarrow> bool" where
  "can_assign S rq loc =
     (case outcome S rq loc of Some (Success d) \<Rightarrow> writable rq loc | _ \<Rightarrow> True)"

definition assignable :: "('v, 'i) validation_schemas \<Rightarrow> 'v request \<Rightarrow> bool" where
  "assignable S rq = list_all (can_assign S rq) [Body, Query, Params]"

text \<open>The state of the run after the three checks.\<close>

definition checked :: "('v, 'i) validation_schemas \<Rightarrow> 'v request \<Rightarrow> ('v, 'i) run" where
  "checked S rq =
     check_location Params S (check_location Query S
       (check_location Body S \<lparr>req = rq, errors = [], trace = [], thrown = None\<rparr>))"

text \<open>The error entry, the effects on the request and the final field value that one
  location accounts for when its check runs and its assignment succeeds.\<close>

definition loc_errors ::
  "('v, 'i) validation_schemas \<Rightarrow> 'v request \<Rightarrow> location \<Rightarrow> 'i validation_error list" where
  "loc_errors S rq loc =
     (case outcome S rq loc of
        Some (Failure iss) \<Rightarrow> [\<lparr>location = loc, issues = iss\<rparr>]
      | _ \<Rightarrow> [])"

definition loc_trace ::
  "('v, 'i) validation_schemas \<Rightarrow> 'v request \<Rightarrow> location \<Rightarrow> ('v, 'i) effect list" where
  "loc_trace S rq loc =
     (case outcome S rq loc of
        None \<Rightarrow> []
      | Some (Failure iss) \<Rightarrow> [ReadField loc]
      | Some (Success d) \<Rightarrow> [ReadField loc, WriteField loc d])"

definition loc_value :: "('v, 'i) validation_schemas \<Rightarrow> 'v request \<Rightarrow> location \<Rightarrow> 'v" where
  "loc_value S rq loc =
     (case outcome S rq loc of Some (Success d) \<Rightarrow> d | _ \<Rightarrow> get_field loc rq)"

definition all_errors :: "('v, 'i) validation_schemas \<Rightarrow> 'v request \<Rightarrow> 'i validation_error list" where
  "all_errors S rq = concat (map (loc_errors S rq) [Body, Query, Params])"

definition all_trace :: "('v, 'i) validation_schemas \<Rightarrow> 'v request \<Rightarrow> ('v, 'i) effect list" where
  "all_trace S rq = concat (map (loc_trace S rq) [Body, Query, Params])"

text \<open>The effects that write the response, and those that read a request field.\<close>

fun is_response :: "('v, 'i) effect \<Rightarrow> bool" where
  "is_response (ResStatus n) = True"
| "is_response (ResJson b) = True"
| "is_response _ = False"

fun is_read :: "('v, 'i) effect \<Rightarrow> bool" where
  "is_read (ReadField l) = True"
| "is_read _ = False"

subsection \<open>Registration\<close>

text \<open>The steps one argument of a wrapped method stands for, in a given store: the
  middleware of a route definition, a function itself, nothing for any other value.\<close>

fun steps_of ::
  "('v, 'i) request_handler store \<Rightarrow> ('v, 'i) js_value \<Rightarrow> ('v, 'i) request_handler list" where
  "steps_of h (JSRouteDefinition rd) =
     (if brand rd = ''RouteDefinition'' then array_at (middleware rd) h else [])"
| "steps_of h (JSFunction f) = [f]"
| "steps_of h _ = []"

subsection \<open>Builder calls\<close>

text \<open>The schemas a chain of calls gives for a location, the schema in force after the
  chain (the last one given), and the middleware added by \<^verbatim>\<open>use\<close>, in call order.\<close>

fun call_schema :: "location \<Rightarrow> ('v, 'i) builder_call \<Rightarrow> ('v, 'i) schema list" where
  "call_schema Body (CallBody s) = [s]"
| "call_schema Query (CallQuery s) = [s]"
| "call_schema Params (CallParams s) = [s]"
| "call_schema _ _ = []"

definition schemas_given :: "location \<Rightarrow> ('v, 'i) builder_call list \<Rightarrow> ('v, 'i) schema list" where
  "schemas_given loc cs = concat (map (call_schema loc) cs)"

definition configured :: "('v, 'i) builder_call list \<Rightarrow> ('v, 'i) validation_schemas" where
  "configured cs loc =
     (if schemas_given loc cs = [] then None else Some (last (schemas_given loc cs)))"

fun call_use :: "('v, 'i) builder_call \<Rightarrow> ('v, 'i) request_handler list" where
  "call_use (CallUse m) = [m]"
| "call_use _ = []"

definition used :: "('v, 'i) builder_call list \<Rightarrow> ('v, 'i) request_handler list" where
  "used cs = concat (map call_use cs)"

fun is_response_call :: "('v, 'i) builder_call \<Rightarrow> bool" where
  "is_response_call (CallResponse status s) = True"
| "is_response_call _ = False"

definition builder_schema :: "('v, 'i) route_builder \<Rightarrow> ('v, 'i) validation_schemas" where
  "builder_schema this loc =
     (case loc of Body \<Rightarrow> bodySchema this | Query \<Rightarrow> querySchema this | Params \<Rightarrow> paramsSchema this)"

subsection \<open>Example inputs\<close>

text \<open>A schema on integers that rejects negative numbers and keeps the last digit of
  the others, and requests, handlers and a router to run the definitions on. The first
  two requests are Express 4 requests; in the Express 5 requests the query field cannot
  be assigned.\<close>

abbreviation digit_schema :: "(int, string) schema" where
  "digit_schema \<equiv> (\<lambda>v. if 0 \<le> v then Success (v mod 10) else Failure [''negative''])"

abbreviation body_query_schemas :: "(int, string) validation_schemas" where
  "body_query_schemas \<equiv> [Body \<mapsto> digit_schema, Query \<mapsto> digit_schema]"

abbreviation bad_body :: "int request" where
  "bad_body \<equiv> \<lparr>body = - 1, query = 25, params = 7, writable = (\<lambda>l. True)\<rparr>"

abbreviation good_request :: "int request" where
  "good_request \<equiv> \<lparr>body = 12, query = 25, params = 7, writable = (\<lambda>l. True)\<rparr>"

abbreviation bad_body_params :: "int request" where
  "bad_body_params \<equiv> \<lparr>body = - 1, query = 25, params = - 7, writable = (\<lambda>l. True)\<rparr>"

abbreviation express5_bad_body :: "int request" where
  "express5_bad_body \<equiv> \<lparr>body = - 1, query = 25, params = 7, writable = (\<lambda>l. l \<noteq> Query)\<rparr>"

abbreviation express5_good_request :: "int request" where
  "express5_good_request \<equiv>
     \<lparr>body = 12, query = 25, params = 7, writable = (\<lambda>l. l \<noteq> Query)\<rparr>"

abbreviation express5_bad_body_params :: "int request" where
  "express5_bad_body_params \<equiv>
     \<lparr>body = - 1, query = 25, params = - 7, writable = (\<lambda>l. l \<noteq> Query)\<rparr>"

abbreviation all_schemas :: "(int, string) validation_schemas" where
  "all_schemas \<equiv> (\<lambda>l. Some digit_schema)"

abbreviation step_b :: "(int, string) request_handler" where
  "step_b \<equiv> (\<lambda>r. (r, [Next]))"

abbreviation step_d :: "(int, string) request_handler" where
  "step_d \<equiv> (\<lambda>r. (r, []))"

abbreviation recording_router ::
  "http_method \<Rightarrow> string \<Rightarrow> (int, string) request_handler list \<Rightarrow>
   http_method \<times> string \<times> (int, string) request_handler list" where
  "recording_router \<equiv> (\<lambda>m path hs. (m, path, hs))"

abbreviation body_only :: "(int, string) route_schemas" where
  "body_only \<equiv> \<lparr>schemas_body = Some digit_schema, schemas_query = None, schemas_params = None,
                 schemas_response = None\<rparr>"

abbreviation response_only :: "(int, string) route_schemas" where
  "response_only \<equiv> \<lparr>schemas_body = None, schemas_query = None, schemas_params = None,
                     schemas_response = Some [200 \<mapsto> digit_schema]\<rparr>"

abbreviation def_a :: "(int, string) route_definition" where
  "def_a \<equiv> \<lparr>schemas = body_only, middleware = 0, brand = ''RouteDefinition''\<rparr>"

abbreviation def_c :: "(int, string) route_definition" where
  "def_c \<equiv> \<lparr>schemas = response_only, middleware = 1, brand = ''RouteDefinition''\<rparr>"

abbreviation two_arrays :: "(int, string) request_handler store" where
  "two_arrays \<equiv> [[createValidationMiddleware [Body \<mapsto> digit_schema]], []]"

abbreviation mixed_calls :: "(int, string) builder_call list" where
  "mixed_calls \<equiv>
     [CallUse step_b, CallBody digit_schema, CallResponse 200 digit_schema, CallUse step_d]"

abbreviation response_calls :: "(int, string) builder_call list" where
  "response_calls \<equiv> [CallResponse 200 digit_schema]"

abbreviation fresh_builder :: "(int, string) route_builder" where
  "fresh_builder \<equiv> \<lparr>bodySchema = None, querySchema = None, paramsSchema = None,
                     responseSchemas = Map.empty, middlewares = 0\<rparr>"

section \<open>The middleware, location by location\<close>

lemma get_set_field: "get_field l (set_field l' v r) = (if l = l' then v else get_field l r)"
  by (cases l; cases l') simp_all

lemma writable_set_field: "writable (set_field l v r) = writable r"
  by (cases l) simp_all

lemma set_field_commute:
  "l \<noteq> l' \<Longrightarrow> set_field l v (set_field l' v' r) = set_field l' v' (set_field l v r)"
  by (cases l; cases l') simp_all

lemma request_eqI:
  fixes r r' :: "'v request"
  assumes "\<And>l. get_field l r = get_field l r'" and "writable r = writable r'"
  shows "r = r'"
  using assms(1) [of Body] assms(1) [of Query] assms(1) [of Params] assms(2) by simp

lemma outcome_cong: "get_field loc r = get_field loc r' \<Longrightarrow> outcome S r loc = outcome S r' loc"
  by (simp add: outcome_def split: option.splits)

text \<open>One check, whatever the state it starts from.\<close>

lemma check_location_writable: "writable (req (check_location loc S st)) = writable (req st)"
  by (simp add: check_location_def writable_set_field
           split: option.splits safe_parse_result.splits)

lemma check_location_other:
  "l \<noteq> loc \<Longrightarrow> get_field l (req (check_location loc S st)) = get_field l (req st)"
  by (simp add: check_location_def get_set_field split: option.splits safe_parse_result.splits)

lemma check_location_own:
  "get_field loc (req (check_location loc S st)) = get_field loc (req st) \<or>
   (\<exists>d. outcome S (req st) loc = Some (Success d) \<and>
        get_field loc (req (check_location loc S st)) = d)"
  by (simp add: check_location_def get_set_field outcome_def
           split: option.splits safe_parse_result.splits)

lemma check_location_trace_elem:
  assumes "e \<in> set (trace (check_location loc S st))"
  shows "e \<in> set (trace st) \<or> (e = ReadField loc \<and> S loc \<noteq> None) \<or>
         (\<exists>d. e = WriteField loc d \<and> outcome S (req st) loc = Some (Success d))"
proof (cases "thrown st")
  case (Some err)
  with assms show ?thesis by (simp add: check_location_def)
next
  case None
  note t = this
  show ?thesis
  proof (cases "S loc")
    case None
    with assms t show ?thesis by (simp add: check_location_def)
  next
    case (Some s)
    with assms t show ?thesis
      by (cases "s (get_field loc (req st))")
         (auto simp: check_location_def outcome_def split: if_splits)
  qed
qed

lemma check_location_shift:
  assumes "S loc = None"
  shows "check_location l S (st\<lparr>req := set_field loc v (req st)\<rparr>) =
         (check_location l S st)\<lparr>req := set_field loc v (req (check_location l S st))\<rparr>"
proof (cases "l = loc")
  case True
  with assms show ?thesis by (simp add: check_location_def split: option.splits)
next
  case False
  then have c: "set_field l d (set_field loc v r) = set_field loc v (set_field l d r)" for d r
    by (rule set_field_commute)
  from False show ?thesis
    by (simp add: check_location_def get_set_field writable_set_field c
             split: option.splits safe_parse_result.splits)
qed

text \<open>The three checks in sequence. A check reads a field that no earlier check has
  written, so the validator answers for each location as on the incoming request.\<close>

lemma checked_trace_elem:
  assumes "e \<in> set (trace (checked S rq))"
  shows "\<exists>l. (e = ReadField l \<and> S l \<noteq> None) \<or>
             (\<exists>d. e = WriteField l d \<and> outcome S rq l = Some (Success d))"
proof -
  let ?st0 = "\<lparr>req = rq, errors = [], trace = [], thrown = None\<rparr> :: ('a, 'b) run"
  let ?st1 = "check_location Body S ?st0"
  let ?st2 = "check_location Query S ?st1"
  have q: "outcome S (req ?st1) Query = outcome S rq Query"
    using check_location_other [of Query Body S ?st0] by (intro outcome_cong) simp
  have p: "outcome S (req ?st2) Params = outcome S rq Params"
    using check_location_other [of Params Query S ?st1] check_location_other [of Params Body S ?st0]
    by (intro outcome_cong) simp
  have b: "outcome S (req ?st0) Body = outcome S rq Body"
    by simp
  from assms have "e \<in> set (trace (check_location Params S ?st2))"
    by (simp add: checked_def)
  from check_location_trace_elem [OF this]
  show ?thesis
  proof (elim disjE)
    assume "e \<in> set (trace ?st2)"
    from check_location_trace_elem [OF this]
    show ?thesis
    proof (elim disjE)
      assume "e \<in> set (trace ?st1)"
      from check_location_trace_elem [OF this]
      show ?thesis unfolding b by auto
    qed (unfold q, auto)
  qed (unfold p, auto)
qed

lemma checked_field:
  "get_field l (req (checked S rq)) = get_field l rq \<or>
   (\<exists>d. outcome S rq l = Some (Success d) \<and> get_field l (req (checked S rq)) = d)"
proof -
  let ?st0 = "\<lparr>req = rq, errors = [], trace = [], thrown = None\<rparr> :: ('a, 'b) run"
  let ?st1 = "check_location Body S ?st0"
  let ?st2 = "check_location Query S ?st1"
  show ?thesis
  proof (cases l)
    case Body
    have "get_field Body (req (checked S rq)) = get_field Body (req ?st1)"
      using check_location_other [of Body Params S ?st2] check_location_other [of Body Query S ?st1]
      by (simp add: checked_def)
    with check_location_own [of Body S ?st0] Body show ?thesis by simp
  next
    case Query
    have a: "get_field Query (req (checked S rq)) = get_field Query (req ?st2)"
      using check_location_other [of Query Params S ?st2] by (simp add: checked_def)
    have g: "get_field Query (req ?st1) = get_field Query rq"
      using check_location_other [of Query Body S ?st0] by simp
    have o: "outcome S (req ?st1) Query = outcome S rq Query"
      by (rule outcome_cong) (rule g)
    have "get_field Query (req (checked S rq)) = get_field Query rq \<or>
       (\<exists>d. outcome S rq Query = Some (Success d) \<and> get_field Query (req (checked S rq)) = d)"
      using check_location_own [of Query S ?st1] unfolding a g o .
    with Query show ?thesis by simp
  next
    case Params
    have g: "get_field Params (req ?st2) = get_field Params rq"
      using check_location_other [of Params Query S ?st1] check_location_other [of Params Body S ?st0]
      by simp
    have o: "outcome S (req ?st2) Params = outcome S rq Params"
      by (rule outcome_cong) (rule g)
    have "get_field Params (req (checked S rq)) = get_field Params rq \<or>
       (\<exists>d. outcome S rq Params = Some (Success d) \<and> get_field Params (req (checked S rq)) = d)"
      using check_location_own [of Params S ?st2] unfolding checked_def g o .
    with Params show ?thesis by simp
  qed
qed

lemma checked_writable: "writable (req (checked S rq)) = writable rq"
  by (simp add: checked_def check_location_writable)

lemma checked_shift:
  assumes "S loc = None"
  shows "checked S (set_field loc v rq) =
         (checked S rq)\<lparr>req := set_field loc v (req (checked S rq))\<rparr>"
proof -
  let ?st0 = "\<lparr>req = rq, errors = [], trace = [], thrown = None\<rparr> :: ('a, 'b) run"
  have s0: "\<lparr>req = set_field loc v rq, errors = [], trace = [], thrown = None\<rparr> =
            ?st0\<lparr>req := set_field loc v (req ?st0)\<rparr>"
    by simp
  show ?thesis
    unfolding checked_def s0 check_location_shift [where S = S and loc = loc, OF assms] ..
qed

lemma mw_checked:
  "createValidationMiddleware S rq =
     (case thrown (checked S rq) of
        Some e \<Rightarrow> (req (checked S rq), trace (checked S rq) @ [Throw e])
      | None \<Rightarrow>
          if errors (checked S rq) \<noteq> []
          then (req (checked S rq),
                trace (checked S rq) @
                  [ResStatus 400,
                   ResJson \<lparr>error = ''Validation failed'', details = errors (checked S rq)\<rparr>])
          else (req (checked S rq), trace (checked S rq) @ [Next]))"
  by (simp add: createValidationMiddleware_def checked_def Let_def split: option.splits)

lemma mw_request: "fst (createValidationMiddleware S rq) = req (checked S rq)"
  by (simp add: mw_checked split: option.splits)

lemma mw_effects_elem:
  "e \<in> set (snd (createValidationMiddleware S rq)) \<Longrightarrow>
     e \<in> set (trace (checked S rq)) \<or> (\<forall>l. e \<noteq> ReadField l) \<and> (\<forall>l v. e \<noteq> WriteField l v)"
  by (auto simp: mw_checked split: option.splits if_splits)

section \<open>Properties of the validation middleware on every request\<close>

text \<open>
  Claim C7. A location without a schema is neither read nor assigned, keeps its value,
  and has no influence on anything else the middleware does: with any other value in
  that field the middleware performs the same effects and leaves the same request, that
  field apart. A configured location whose validation fails is not assigned and keeps
  its value. This holds whether or not the fields of the request can be assigned.
\<close>

theorem unconfigured_or_failed_field_untouched:
  "(S loc = None \<longrightarrow>
      ReadField loc \<notin> set (snd (createValidationMiddleware S rq)) \<and>
      (\<forall>v. WriteField loc v \<notin> set (snd (createValidationMiddleware S rq))) \<and>
      get_field loc (fst (createValidationMiddleware S rq)) = get_field loc rq \<and>
      (\<forall>v. createValidationMiddleware S (set_field loc v rq) =
            (set_field loc v (fst (createValidationMiddleware S rq)),
             snd (createValidationMiddleware S rq)))) \<and>
   (fails S rq loc \<longrightarrow>
      (\<forall>v. WriteField loc v \<notin> set (snd (createValidationMiddleware S rq))) \<and>
      get_field loc (fst (createValidationMiddleware S rq)) = get_field loc rq)"
proof (intro conjI impI)
  assume n: "S loc = None"
  then have o: "outcome S rq loc = None"
    by (simp add: outcome_def)
  show "ReadField loc \<notin> set (snd (createValidationMiddleware S rq))"
  proof
    assume "ReadField loc \<in> set (snd (createValidationMiddleware S rq))"
    from mw_effects_elem [OF this] have "ReadField loc \<in> set (trace (checked S rq))"
      by auto
    from checked_trace_elem [OF this] n show False
      by auto
  qed
  show "\<forall>v. WriteField loc v \<notin> set (snd (createValidationMiddleware S rq))"
  proof (intro allI notI)
    fix v
    assume "WriteField loc v \<in> set (snd (createValidationMiddleware S rq))"
    from mw_effects_elem [OF this] have "WriteField loc v \<in> set (trace (checked S rq))"
      by auto
    from checked_trace_elem [OF this] o show False
      by auto
  qed
  show "get_field loc (fst (createValidationMiddleware S rq)) = get_field loc rq"
    using checked_field [of loc S rq] o by (simp add: mw_request)
  show "\<forall>v. createValidationMiddleware S (set_field loc v rq) =
            (set_field loc v (fst (createValidationMiddleware S rq)),
             snd (createValidationMiddleware S rq))"
  proof
    fix v
    show "createValidationMiddleware S (set_field loc v rq) =
            (set_field loc v (fst (createValidationMiddleware S rq)),
             snd (createValidationMiddleware S rq))"
      unfolding mw_checked checked_shift [where S = S and loc = loc, OF n]
      by (simp split: option.splits)
  qed
next
  assume f: "fails S rq loc"
  then obtain iss where o: "outcome S rq loc = Some (Failure iss)"
    by (auto simp: fails_def split: option.splits safe_parse_result.splits)
  show "\<forall>v. WriteField loc v \<notin> set (snd (createValidationMiddleware S rq))"
  proof (intro allI notI)
    fix v
    assume "WriteField loc v \<in> set (snd (createValidationMiddleware S rq))"
    from mw_effects_elem [OF this] have "WriteField loc v \<in> set (trace (checked S rq))"
      by auto
    from checked_trace_elem [OF this] o show False
      by auto
  qed
  show "get_field loc (fst (createValidationMiddleware S rq)) = get_field loc rq"
    using checked_field [of loc S rq] o by (simp add: mw_request)
qed

theorem unconfigured_or_failed_field_untouched_witness:
  "body_query_schemas Params = None \<and>
   ReadField Params \<notin> set (snd (createValidationMiddleware body_query_schemas bad_body)) \<and>
   (\<forall>v. WriteField Params v \<notin> set (snd (createValidationMiddleware body_query_schemas bad_body))) \<and>
   get_field Params (fst (createValidationMiddleware body_query_schemas bad_body)) = 7 \<and>
   (\<forall>v. createValidationMiddleware body_query_schemas (set_field Params v bad_body) =
         (set_field Params v (fst (createValidationMiddleware body_query_schemas bad_body)),
          snd (createValidationMiddleware body_query_schemas bad_body))) \<and>
   fails body_query_schemas bad_body Body \<and>
   (\<forall>v. WriteField Body v \<notin> set (snd (createValidationMiddleware body_query_schemas bad_body))) \<and>
   get_field Body (fst (createValidationMiddleware body_query_schemas bad_body)) = - 1"
proof -
  have n: "body_query_schemas Params = None"
    by simp
  have f: "fails body_query_schemas bad_body Body"
    by (simp add: fails_def outcome_def)
  note u = unconfigured_or_failed_field_untouched [of body_query_schemas Params bad_body,
      THEN conjunct1, THEN mp, OF n]
  note v = unconfigured_or_failed_field_untouched [of body_query_schemas Body bad_body,
      THEN conjunct2, THEN mp, OF f]
  have p: "get_field Params bad_body = 7" and b: "get_field Body bad_body = - 1"
    by simp_all
  from u have u1: "ReadField Params \<notin> set (snd (createValidationMiddleware body_query_schemas bad_body))"
    and u2: "\<forall>v. WriteField Params v \<notin> set (snd (createValidationMiddleware body_query_schemas bad_body))"
    and u3: "get_field Params (fst (createValidationMiddleware body_query_schemas bad_body)) =
             get_field Params bad_body"
    and u4: "\<forall>v. createValidationMiddleware body_query_schemas (set_field Params v bad_body) =
         (set_field Params v (fst (createValidationMiddleware body_query_schemas bad_body)),
          snd (createValidationMiddleware body_query_schemas bad_body))"
    by blast+
  from v have v1: "\<forall>v. WriteField Body v \<notin> set (snd (createValidationMiddleware body_query_schemas bad_body))"
    and v2: "get_field Body (fst (createValidationMiddleware body_query_schemas bad_body)) =
             get_field Body bad_body"
    by blast+
  show ?thesis
    using n f u1 u2 u3 [unfolded p] u4 v1 v2 [unfolded b] by blast
qed

section \<open>The middleware on Express 5 requests\<close>

text \<open>
  On an Express 5 request the assignment to \<^verbatim>\<open>req.query\<close> throws. The four
  evaluations below run the middleware on such requests, with a query that the validator
  accepts. They all show the same defect: the run ends at the assignment, before the
  params check, the response and \<^verbatim>\<open>next()\<close>.
\<close>

text \<open>
  Claim C1 says that when a configured location fails, the middleware writes status 400
  once with the error list and does not call the continuation. Evaluated on an Express 5
  request whose body is rejected and whose query is accepted: the body is read, the query
  is read, the assignment to the query throws a TypeError, and nothing is written to the
  response.
\<close>

theorem rejection_lost_on_express5:
  "fails body_query_schemas express5_bad_body Body \<and>
   createValidationMiddleware body_query_schemas express5_bad_body =
     (express5_bad_body, [ReadField Body, ReadField Query, Throw TypeError]) \<and>
   filter is_response (snd (createValidationMiddleware body_query_schemas express5_bad_body)) = []"
  by (simp add: fails_def outcome_def createValidationMiddleware_def check_location_def Let_def)

text \<open>
  Claim C2 says that when every configured location is accepted, the middleware assigns
  the canonical outputs and calls the continuation once. Evaluated on an Express 5
  request whose body and query are both accepted: the body is rewritten, the assignment
  to the query throws a TypeError, the continuation is not called, and the query keeps
  its raw value.
\<close>

theorem valid_request_throws_on_express5:
  "(\<forall>loc. \<not> fails body_query_schemas express5_good_request loc) \<and>
   createValidationMiddleware body_query_schemas express5_good_request =
     (express5_good_request\<lparr>body := 2\<rparr>,
      [ReadField Body, WriteField Body 2, ReadField Query, Throw TypeError]) \<and>
   Next \<notin> set (snd (createValidationMiddleware body_query_schemas express5_good_request)) \<and>
   get_field Query (fst (createValidationMiddleware body_query_schemas express5_good_request)) = 25"
  by (simp add: fails_def outcome_def createValidationMiddleware_def check_location_def Let_def)

text \<open>
  Claim C3 says that the middleware checks body, query and params in this order on every
  request and reports the failing locations in that order. Evaluated on an Express 5
  request with all three locations configured, body and params rejected and the query
  accepted: body and query are read, the assignment to the query throws a TypeError, and
  params is never read, so no details are sent at all.
\<close>

theorem params_unchecked_on_express5:
  "all_schemas Params \<noteq> None \<and>
   fails all_schemas express5_bad_body_params Body \<and>
   fails all_schemas express5_bad_body_params Params \<and>
   createValidationMiddleware all_schemas express5_bad_body_params =
     (express5_bad_body_params, [ReadField Body, ReadField Query, Throw TypeError]) \<and>
   filter is_read (snd (createValidationMiddleware all_schemas express5_bad_body_params)) =
     [ReadField Body, ReadField Query]"
  by (simp add: fails_def outcome_def createValidationMiddleware_def check_location_def Let_def)

text \<open>
  Claim C9 says that when one location fails and another is accepted, the accepted field
  is still rewritten before the 400 response. Evaluated on an Express 5 request whose
  body is rejected and whose query is accepted with canonical value 5: the query is not
  assigned and keeps the raw value 25, no status 400 is written, and the run ends with a
  TypeError.
\<close>

theorem accepted_query_not_rewritten_on_express5:
  "fails body_query_schemas express5_bad_body Body \<and>
   outcome body_query_schemas express5_bad_body Query = Some (Success 5) \<and>
   get_field Query (fst (createValidationMiddleware body_query_schemas express5_bad_body)) = 25 \<and>
   WriteField Query 5 \<notin> set (snd (createValidationMiddleware body_query_schemas express5_bad_body)) \<and>
   ResStatus 400 \<notin> set (snd (createValidationMiddleware body_query_schemas express5_bad_body)) \<and>
   last (snd (createValidationMiddleware body_query_schemas express5_bad_body)) = Throw TypeError"
  by (simp add: fails_def outcome_def createValidationMiddleware_def check_location_def Let_def)

section \<open>The middleware on requests whose accepted fields can be assigned\<close>

text \<open>
  On an assignable request, such as every Express 4 request, no assignment throws, and
  the middleware rejects once, passes valid requests through, reports in a fixed order
  and keeps the rewrites of the accepted locations. Each of the four lemmas below is
  followed by its instance on an Express 4 request.
\<close>

lemma can_assign_cong:
  "get_field loc r = get_field loc r' \<Longrightarrow> writable r = writable r' \<Longrightarrow>
   can_assign S r loc = can_assign S r' loc"
  by (simp add: can_assign_def outcome_cong [of loc r r']
           split: option.splits safe_parse_result.splits)

lemma check_location_assignable:
  assumes "thrown st = None" and "can_assign S (req st) loc"
  shows "thrown (check_location loc S st) = None"
    and "errors (check_location loc S st) = errors st @ loc_errors S (req st) loc"
    and "trace (check_location loc S st) = trace st @ loc_trace S (req st) loc"
    and "get_field l (req (check_location loc S st)) =
           (if l = loc then loc_value S (req st) loc else get_field l (req st))"
proof -
  show "thrown (check_location loc S st) = None"
    using assms
    by (cases "S loc")
       (auto simp: check_location_def can_assign_def outcome_def split: safe_parse_result.splits)
  show "errors (check_location loc S st) = errors st @ loc_errors S (req st) loc"
    using assms
    by (cases "S loc")
       (auto simp: check_location_def can_assign_def loc_errors_def outcome_def
             split: safe_parse_result.splits)
  show "trace (check_location loc S st) = trace st @ loc_trace S (req st) loc"
    using assms
    by (cases "S loc")
       (auto simp: check_location_def can_assign_def loc_trace_def outcome_def
             split: safe_parse_result.splits)
  show "get_field l (req (check_location loc S st)) =
           (if l = loc then loc_value S (req st) loc else get_field l (req st))"
    using assms
    by (cases "S loc")
       (auto simp: check_location_def can_assign_def loc_value_def outcome_def get_set_field
             split: safe_parse_result.splits)
qed

lemma loc_errors_cong:
  "get_field loc r = get_field loc r' \<Longrightarrow> loc_errors S r loc = loc_errors S r' loc"
  by (simp add: loc_errors_def outcome_cong [of loc r r'])

lemma loc_trace_cong:
  "get_field loc r = get_field loc r' \<Longrightarrow> loc_trace S r loc = loc_trace S r' loc"
  by (simp add: loc_trace_def outcome_cong [of loc r r'])

lemma loc_value_cong:
  "get_field loc r = get_field loc r' \<Longrightarrow> loc_value S r loc = loc_value S r' loc"
  by (simp add: loc_value_def outcome_cong [of loc r r']
           split: option.splits safe_parse_result.splits)

text \<open>On an assignable request no check throws, and each location accounts for its
  own part of the errors, the effects and the final request.\<close>

lemma checked_assignable:
  assumes "assignable S rq"
  shows "thrown (checked S rq) = None"
    and "errors (checked S rq) = all_errors S rq"
    and "trace (checked S rq) = all_trace S rq"
    and "get_field l (req (checked S rq)) = loc_value S rq l"
proof -
  let ?st0 = "\<lparr>req = rq, errors = [], trace = [], thrown = None\<rparr> :: ('a, 'b) run"
  let ?st1 = "check_location Body S ?st0"
  let ?st2 = "check_location Query S ?st1"
  from assms have cb: "can_assign S rq Body" and cq: "can_assign S rq Query"
    and cp: "can_assign S rq Params"
    by (simp_all add: assignable_def)
  have t0: "thrown ?st0 = None" and c0: "can_assign S (req ?st0) Body"
    using cb by simp_all
  note s1 = check_location_assignable [OF t0 c0]
  have q1: "get_field Query (req ?st1) = get_field Query rq"
    and p1: "get_field Params (req ?st1) = get_field Params rq"
    and b1: "get_field Body (req ?st1) = loc_value S rq Body"
    using s1(4) [of Query] s1(4) [of Params] s1(4) [of Body] by simp_all
  have w1: "writable (req ?st1) = writable rq"
    by (simp add: check_location_writable)
  have c1: "can_assign S (req ?st1) Query"
    using cq can_assign_cong [OF q1 w1, of S] by simp
  note s2 = check_location_assignable [OF s1(1) c1]
  have q2: "get_field Query (req ?st2) = loc_value S rq Query"
    and p2: "get_field Params (req ?st2) = get_field Params rq"
    and b2: "get_field Body (req ?st2) = loc_value S rq Body"
    using s2(4) [of Query] s2(4) [of Params] s2(4) [of Body] p1 b1 loc_value_cong [OF q1]
    by simp_all
  have w2: "writable (req ?st2) = writable rq"
    by (simp add: check_location_writable)
  have c2: "can_assign S (req ?st2) Params"
    using cp can_assign_cong [OF p2 w2, of S] by simp
  note s3 = check_location_assignable [OF s2(1) c2]
  show "thrown (checked S rq) = None"
    using s3(1) by (simp add: checked_def)
  show "errors (checked S rq) = all_errors S rq"
    using s3(2) s2(2) s1(2) loc_errors_cong [OF q1, of S] loc_errors_cong [OF p2, of S]
    by (simp add: checked_def all_errors_def)
  show "trace (checked S rq) = all_trace S rq"
    using s3(3) s2(3) s1(3) loc_trace_cong [OF q1, of S] loc_trace_cong [OF p2, of S]
    by (simp add: checked_def all_trace_def)
  show "get_field l (req (checked S rq)) = loc_value S rq l"
    using s3(4) [of l] q2 b2 loc_value_cong [OF p2, of S]
    by (cases l) (simp_all add: checked_def)
qed

lemma mw_effects:
  "assignable S rq \<Longrightarrow>
   snd (createValidationMiddleware S rq) =
     all_trace S rq @
     (if all_errors S rq = [] then [Next]
      else [ResStatus 400, ResJson \<lparr>error = ''Validation failed'', details = all_errors S rq\<rparr>])"
  by (simp add: mw_checked checked_assignable)

lemma mw_field:
  "assignable S rq \<Longrightarrow> get_field l (fst (createValidationMiddleware S rq)) = loc_value S rq l"
  by (simp add: mw_request checked_assignable)

lemma loc_trace_elem:
  "e \<in> set (loc_trace S rq l) \<Longrightarrow>
     (e = ReadField l \<and> S l \<noteq> None) \<or> (\<exists>d. e = WriteField l d \<and> outcome S rq l = Some (Success d))"
proof (cases "S l")
  case None
  assume "e \<in> set (loc_trace S rq l)"
  with None show ?thesis
    by (simp add: loc_trace_def outcome_def)
next
  case (Some s)
  assume "e \<in> set (loc_trace S rq l)"
  with Some show ?thesis
    by (cases "s (get_field l rq)") (auto simp: loc_trace_def outcome_def)
qed

lemma all_trace_elem:
  "e \<in> set (all_trace S rq) \<Longrightarrow>
     (\<exists>l. (e = ReadField l \<and> S l \<noteq> None) \<or> (\<exists>d. e = WriteField l d \<and> outcome S rq l = Some (Success d)))"
  using loc_trace_elem [of e S rq] by (simp add: all_trace_def) blast

lemma all_trace_field_only: "e \<in> set (all_trace S rq) \<Longrightarrow> \<not> is_response e \<and> e \<noteq> Next"
  using all_trace_elem [of e S rq] by auto

lemma filter_response_trace: "filter is_response (all_trace S rq) = []"
  by (auto simp: filter_empty_conv dest: all_trace_field_only)

lemma write_in_trace: "outcome S rq loc = Some (Success d) \<Longrightarrow> WriteField loc d \<in> set (all_trace S rq)"
  by (cases loc) (simp_all add: all_trace_def loc_trace_def)

lemma fails_iff_errors: "fails S rq loc \<longleftrightarrow> loc_errors S rq loc \<noteq> []"
  by (simp add: fails_def loc_errors_def split: option.splits safe_parse_result.splits)

lemma all_errors_empty: "all_errors S rq = [] \<longleftrightarrow> (\<forall>loc. \<not> fails S rq loc)"
proof
  assume "all_errors S rq = []"
  then have "loc_errors S rq loc = []" for loc
    by (cases loc) (simp_all add: all_errors_def)
  then show "\<forall>loc. \<not> fails S rq loc"
    by (simp add: fails_iff_errors)
next
  assume "\<forall>loc. \<not> fails S rq loc"
  then show "all_errors S rq = []"
    by (simp add: all_errors_def fails_iff_errors)
qed

lemma loc_errors_filter:
  "filter (\<lambda>e. location e = l) (loc_errors S rq loc) = (if l = loc then loc_errors S rq loc else [])"
  by (auto simp: loc_errors_def split: option.splits safe_parse_result.splits)

lemma loc_errors_length: "length (loc_errors S rq l) = (if fails S rq l then 1 else 0)"
  by (simp add: fails_def loc_errors_def split: option.splits safe_parse_result.splits)

lemma all_errors_count:
  "length (filter (\<lambda>e. location e = l) (all_errors S rq)) = (if fails S rq l then 1 else 0)"
  by (cases l) (simp_all add: all_errors_def loc_errors_filter loc_errors_length)

lemma loc_errors_verbatim:
  "e \<in> set (loc_errors S rq loc) \<Longrightarrow> outcome S rq (location e) = Some (Failure (issues e))"
proof (cases "outcome S rq loc")
  case None
  assume "e \<in> set (loc_errors S rq loc)"
  with None show ?thesis by (simp add: loc_errors_def)
next
  case (Some res)
  assume "e \<in> set (loc_errors S rq loc)"
  with Some show ?thesis by (cases res) (auto simp: loc_errors_def)
qed

lemma all_errors_verbatim:
  "e \<in> set (all_errors S rq) \<Longrightarrow> outcome S rq (location e) = Some (Failure (issues e))"
  using loc_errors_verbatim [of e S rq] by (auto simp: all_errors_def)

lemma assignable_failure_rejects_once:
  assumes "assignable S rq" and "fails S rq l0"
  shows "\<exists>errs.
           Next \<notin> set (snd (createValidationMiddleware S rq)) \<and>
           filter is_response (snd (createValidationMiddleware S rq)) =
             [ResStatus 400, ResJson \<lparr>error = ''Validation failed'', details = errs\<rparr>] \<and>
           (\<forall>loc. length (filter (\<lambda>e. location e = loc) errs) = (if fails S rq loc then 1 else 0)) \<and>
           (\<forall>e \<in> set errs. outcome S rq (location e) = Some (Failure (issues e))) \<and>
           ((\<forall>loc. outcome S rq loc \<noteq> Some (Failure [])) \<longrightarrow> (\<forall>e \<in> set errs. issues e \<noteq> []))"
proof -
  from assms(2) have ne: "all_errors S rq \<noteq> []"
    by (auto simp: all_errors_empty)
  have eff: "snd (createValidationMiddleware S rq) =
      all_trace S rq @
      [ResStatus 400, ResJson \<lparr>error = ''Validation failed'', details = all_errors S rq\<rparr>]"
    using ne mw_effects [OF assms(1)] by simp
  have no_next: "Next \<notin> set (snd (createValidationMiddleware S rq))"
    using all_trace_field_only [of Next S rq] by (auto simp: eff)
  have resp: "filter is_response (snd (createValidationMiddleware S rq)) =
      [ResStatus 400, ResJson \<lparr>error = ''Validation failed'', details = all_errors S rq\<rparr>]"
    by (simp add: eff filter_response_trace)
  have nonempty: "(\<forall>loc. outcome S rq loc \<noteq> Some (Failure [])) \<longrightarrow>
      (\<forall>e \<in> set (all_errors S rq). issues e \<noteq> [])"
    using all_errors_verbatim [of _ S rq] by metis
  show ?thesis
    using no_next resp nonempty all_errors_count [of _ S rq] all_errors_verbatim [of _ S rq]
    by blast
qed

lemma assignable_failure_rejects_once_express4:
  "assignable body_query_schemas bad_body \<and>
   fails body_query_schemas bad_body Body \<and>
   (\<forall>loc. outcome body_query_schemas bad_body loc \<noteq> Some (Failure [])) \<and>
   (\<exists>errs.
      Next \<notin> set (snd (createValidationMiddleware body_query_schemas bad_body)) \<and>
      filter is_response (snd (createValidationMiddleware body_query_schemas bad_body)) =
        [ResStatus 400, ResJson \<lparr>error = ''Validation failed'', details = errs\<rparr>] \<and>
      (\<forall>loc. length (filter (\<lambda>e. location e = loc) errs) =
         (if fails body_query_schemas bad_body loc then 1 else 0)) \<and>
      (\<forall>e \<in> set errs. outcome body_query_schemas bad_body (location e) = Some (Failure (issues e))) \<and>
      (\<forall>e \<in> set errs. issues e \<noteq> []))"
proof -
  have h: "fails body_query_schemas bad_body Body"
    by (simp add: fails_def outcome_def)
  have a: "assignable body_query_schemas bad_body"
    by (simp add: assignable_def can_assign_def outcome_def)
  have n: "\<forall>loc. outcome body_query_schemas bad_body loc \<noteq> Some (Failure [])"
    by (simp add: outcome_def)
  from assignable_failure_rejects_once [OF a h] n h a show ?thesis
    by blast
qed

lemma assignable_valid_request_passes_through:
  assumes "assignable S rq" and "\<forall>loc. \<not> fails S rq loc"
  shows "\<exists>fs.
           snd (createValidationMiddleware S rq) = fs @ [Next] \<and>
           Next \<notin> set fs \<and>
           filter is_response fs = [] \<and>
           (\<forall>loc s. S loc = Some s \<longrightarrow>
              (\<exists>d. s (get_field loc rq) = Success d \<and>
                   WriteField loc d \<in> set fs \<and>
                   get_field loc (fst (createValidationMiddleware S rq)) = d))"
proof -
  from assms(2) have e: "all_errors S rq = []"
    by (simp add: all_errors_empty)
  have eff: "snd (createValidationMiddleware S rq) = all_trace S rq @ [Next]"
    using mw_effects [OF assms(1)] by (simp add: e)
  have nn: "Next \<notin> set (all_trace S rq)"
    using all_trace_field_only [of Next S rq] by auto
  have cfg: "\<exists>d. s (get_field loc rq) = Success d \<and>
                WriteField loc d \<in> set (all_trace S rq) \<and>
                get_field loc (fst (createValidationMiddleware S rq)) = d"
    if s: "S loc = Some s" for loc s
  proof (cases "s (get_field loc rq)")
    case (Success d)
    with s have o: "outcome S rq loc = Some (Success d)"
      by (simp add: outcome_def)
    have "WriteField loc d \<in> set (all_trace S rq)"
      using o by (rule write_in_trace)
    moreover have "get_field loc (fst (createValidationMiddleware S rq)) = d"
      using o mw_field [OF assms(1), of loc] by (simp add: loc_value_def)
    ultimately show ?thesis
      using Success by simp
  next
    case (Failure iss)
    with s have "fails S rq loc"
      by (simp add: fails_def outcome_def)
    with assms(2) show ?thesis by simp
  qed
  show ?thesis
    using eff nn filter_response_trace [of S rq] cfg by blast
qed

lemma assignable_valid_request_passes_through_express4:
  "assignable body_query_schemas good_request \<and>
   (\<forall>loc. \<not> fails body_query_schemas good_request loc) \<and>
   (\<exists>fs.
      snd (createValidationMiddleware body_query_schemas good_request) = fs @ [Next] \<and>
      Next \<notin> set fs \<and>
      filter is_response fs = [] \<and>
      WriteField Body 2 \<in> set fs \<and> WriteField Query 5 \<in> set fs \<and>
      get_field Body (fst (createValidationMiddleware body_query_schemas good_request)) = 2 \<and>
      get_field Query (fst (createValidationMiddleware body_query_schemas good_request)) = 5)"
proof -
  have h: "\<forall>loc. \<not> fails body_query_schemas good_request loc"
    by (simp add: fails_def outcome_def)
  have a: "assignable body_query_schemas good_request"
    by (simp add: assignable_def can_assign_def outcome_def)
  from assignable_valid_request_passes_through [OF a h]
  obtain fs where fs: "snd (createValidationMiddleware body_query_schemas good_request) = fs @ [Next]"
      "Next \<notin> set fs" "filter is_response fs = []"
      "\<forall>loc s. body_query_schemas loc = Some s \<longrightarrow>
         (\<exists>d. s (get_field loc good_request) = Success d \<and> WriteField loc d \<in> set fs \<and>
              get_field loc (fst (createValidationMiddleware body_query_schemas good_request)) = d)"
    by blast
  from fs(4) [rule_format, of Body digit_schema] fs(4) [rule_format, of Query digit_schema]
  have "WriteField Body 2 \<in> set fs \<and> WriteField Query 5 \<in> set fs \<and>
      get_field Body (fst (createValidationMiddleware body_query_schemas good_request)) = 2 \<and>
      get_field Query (fst (createValidationMiddleware body_query_schemas good_request)) = 5"
    by auto
  with fs(1,2,3) h a show ?thesis
    by blast
qed

lemma assignable_details_in_fixed_order:
  assumes "assignable S rq"
  shows "filter is_read (snd (createValidationMiddleware S rq)) =
     map ReadField (filter (\<lambda>l. S l \<noteq> None) [Body, Query, Params]) \<and>
   (\<forall>b. ResJson b \<in> set (snd (createValidationMiddleware S rq)) \<longrightarrow>
      details b =
        concat (map (\<lambda>loc. case outcome S rq loc of
                                Some (Failure iss) \<Rightarrow> [\<lparr>location = loc, issues = iss\<rparr>]
                              | _ \<Rightarrow> [])
                    [Body, Query, Params]))"
proof -
  have rd: "filter is_read (loc_trace S rq loc) = (if S loc \<noteq> None then [ReadField loc] else [])" for loc
    by (simp add: loc_trace_def outcome_def split: option.splits safe_parse_result.splits)
  have reads: "filter is_read (snd (createValidationMiddleware S rq)) =
     map ReadField (filter (\<lambda>l. S l \<noteq> None) [Body, Query, Params])"
    using mw_effects [OF assms] by (simp add: all_trace_def rd)
  have js: "details b = all_errors S rq" if "ResJson b \<in> set (snd (createValidationMiddleware S rq))" for b
  proof -
    have "ResJson b \<notin> set (all_trace S rq)"
      using all_trace_field_only [of "ResJson b" S rq] by auto
    with that mw_effects [OF assms] show ?thesis
      by (auto split: if_splits)
  qed
  have unf: "all_errors S rq =
        concat (map (\<lambda>loc. case outcome S rq loc of
                                Some (Failure iss) \<Rightarrow> [\<lparr>location = loc, issues = iss\<rparr>]
                              | _ \<Rightarrow> [])
                    [Body, Query, Params])"
    by (simp add: all_errors_def loc_errors_def)
  show ?thesis
    using reads js unf by simp
qed

lemma assignable_details_in_fixed_order_express4:
  "ResJson \<lparr>error = ''Validation failed'',
            details = [\<lparr>location = Body, issues = [''negative'']\<rparr>,
                       \<lparr>location = Params, issues = [''negative'']\<rparr>]\<rparr>
     \<in> set (snd (createValidationMiddleware all_schemas bad_body_params)) \<and>
   filter is_read (snd (createValidationMiddleware all_schemas bad_body_params)) =
     [ReadField Body, ReadField Query, ReadField Params] \<and>
   [\<lparr>location = Body, issues = [''negative'']\<rparr>, \<lparr>location = Params, issues = [''negative'']\<rparr>] =
     concat (map (\<lambda>loc. case outcome all_schemas bad_body_params loc of
                            Some (Failure iss) \<Rightarrow> [\<lparr>location = loc, issues = iss\<rparr>]
                          | _ \<Rightarrow> [])
                 [Body, Query, Params])"
proof -
  let ?S = "all_schemas"
  let ?rq = "bad_body_params"
  have a: "assignable ?S ?rq"
    by (simp add: assignable_def can_assign_def outcome_def)
  let ?b = "\<lparr>error = ''Validation failed'',
            details = [\<lparr>location = Body, issues = [''negative'']\<rparr>,
                       \<lparr>location = Params, issues = [''negative'']\<rparr>]\<rparr>"
  have h: "ResJson ?b \<in> set (snd (createValidationMiddleware ?S ?rq))"
    by (simp add: createValidationMiddleware_def check_location_def Let_def)
  from assignable_details_in_fixed_order [OF a] h show ?thesis
    by auto
qed

lemma assignable_failure_keeps_other_rewrites:
  assumes "assignable S rq" and "fails S rq l1" and "outcome S rq l2 = Some (Success d)"
  shows "get_field l2 (fst (createValidationMiddleware S rq)) = d \<and>
         Next \<notin> set (snd (createValidationMiddleware S rq)) \<and>
         (\<exists>pre post errs.
            snd (createValidationMiddleware S rq) = pre @ WriteField l2 d # post \<and>
            filter is_response pre = [] \<and>
            filter is_response post =
              [ResStatus 400, ResJson \<lparr>error = ''Validation failed'', details = errs\<rparr>])"
proof -
  from assms(2) have ne: "all_errors S rq \<noteq> []"
    by (auto simp: all_errors_empty)
  let ?tail = "[ResStatus 400, ResJson \<lparr>error = ''Validation failed'', details = all_errors S rq\<rparr>]"
  have eff: "snd (createValidationMiddleware S rq) = all_trace S rq @ ?tail"
    using ne mw_effects [OF assms(1)] by simp
  have w: "WriteField l2 d \<in> set (all_trace S rq)"
    using assms(3) by (rule write_in_trace)
  then obtain pre post where sp: "all_trace S rq = pre @ WriteField l2 d # post"
    by (auto dest: split_list)
  have "filter is_response (pre @ WriteField l2 d # post) = []"
    using filter_response_trace [of S rq] by (simp add: sp)
  then have fp: "filter is_response pre = []" and fq: "filter is_response post = []"
    by simp_all
  have a: "snd (createValidationMiddleware S rq) = pre @ WriteField l2 d # (post @ ?tail)"
    by (simp add: eff sp)
  have b: "filter is_response (post @ ?tail) = ?tail"
    by (simp add: fq)
  have nn: "Next \<notin> set (snd (createValidationMiddleware S rq))"
    using all_trace_field_only [of Next S rq] by (auto simp: eff)
  have fld: "get_field l2 (fst (createValidationMiddleware S rq)) = d"
    using mw_field [OF assms(1), of l2] by (simp add: loc_value_def assms(3))
  show ?thesis
    using a b fp nn fld by blast
qed

lemma assignable_failure_keeps_other_rewrites_express4:
  "assignable body_query_schemas bad_body \<and>
   fails body_query_schemas bad_body Body \<and>
   outcome body_query_schemas bad_body Query = Some (Success 5) \<and>
   get_field Query (fst (createValidationMiddleware body_query_schemas bad_body)) = 5 \<and>
   Next \<notin> set (snd (createValidationMiddleware body_query_schemas bad_body)) \<and>
   (\<exists>pre post errs.
      snd (createValidationMiddleware body_query_schemas bad_body) = pre @ WriteField Query 5 # post \<and>
      filter is_response pre = [] \<and>
      filter is_response post =
        [ResStatus 400, ResJson \<lparr>error = ''Validation failed'', details = errs\<rparr>])"
proof -
  have f: "fails body_query_schemas bad_body Body"
    by (simp add: fails_def outcome_def)
  have a: "assignable body_query_schemas bad_body"
    by (simp add: assignable_def can_assign_def outcome_def)
  have s: "outcome body_query_schemas bad_body Query = Some (Success 5)"
    by (simp add: outcome_def)
  from assignable_failure_keeps_other_rewrites [OF a f s] f s a show ?thesis
    by simp
qed

section \<open>Arrays in the store\<close>

lemma new_array_at:
  "array_at a (snd (new_array h)) = (if a = length h then [] else array_at a h)"
  by (simp add: new_array_def array_at_def nth_append)

lemma push_length: "length (push a xs h) = length h"
  by (simp add: push_def)

lemma push_at:
  "array_at b (push a xs h) = (if b = a \<and> a < length h then array_at a h @ xs else array_at b h)"
  by (simp add: push_def array_at_def)

lemma built_schemas:
  "(case pa of Some s \<Rightarrow>
       (case qu of Some s \<Rightarrow>
           (case bo of Some s \<Rightarrow> Map.empty(Body \<mapsto> s) | None \<Rightarrow> Map.empty)(Query \<mapsto> s)
         | None \<Rightarrow> (case bo of Some s \<Rightarrow> Map.empty(Body \<mapsto> s) | None \<Rightarrow> Map.empty))(Params \<mapsto> s)
     | None \<Rightarrow>
       (case qu of Some s \<Rightarrow>
           (case bo of Some s \<Rightarrow> Map.empty(Body \<mapsto> s) | None \<Rightarrow> Map.empty)(Query \<mapsto> s)
         | None \<Rightarrow> (case bo of Some s \<Rightarrow> Map.empty(Body \<mapsto> s) | None \<Rightarrow> Map.empty))) =
   (\<lambda>loc. case loc of Body \<Rightarrow> bo | Query \<Rightarrow> qu | Params \<Rightarrow> pa)"
  by (rule ext) (simp split: option.splits location.splits)

section \<open>Properties of the router wrapper\<close>

lemma flatten_handler_push:
  "flatten_handler fl v h = push fl (steps_of h v) h \<or> (steps_of h v = [] \<and> flatten_handler fl v h = h)"
  by (cases v) (simp_all add: flatten_handler_def isRouteDefinition_def)

lemma flatten_handler_length: "length (flatten_handler fl v h) = length h"
  using flatten_handler_push [of fl v h] by (auto simp: push_length)

lemma flatten_handler_at:
  "fl < length h \<Longrightarrow>
   array_at b (flatten_handler fl v h) = (if b = fl then array_at fl h @ steps_of h v else array_at b h)"
  using flatten_handler_push [of fl v h] by (auto simp: push_at)

lemma flatten_handler_skip:
  "\<not> isRouteDefinition v \<Longrightarrow> typeof v \<noteq> ''function'' \<Longrightarrow> flatten_handler fl v h = h"
  by (simp add: flatten_handler_def)

text \<open>The loop over the arguments, for an array \<open>fl\<close> that no argument refers to: the
  steps of the arguments are appended to it in argument order and no other array
  changes.\<close>

lemma fold_flatten:
  assumes "fl < length h"
    and "\<forall>v \<in> set args. \<forall>rd. v = JSRouteDefinition rd \<longrightarrow> middleware rd \<noteq> fl"
  shows "length (fold (flatten_handler fl) args h) = length h \<and>
         array_at fl (fold (flatten_handler fl) args h) = array_at fl h @ concat (map (steps_of h) args) \<and>
         (\<forall>b. b \<noteq> fl \<longrightarrow> array_at b (fold (flatten_handler fl) args h) = array_at b h)"
  using assms
proof (induction args arbitrary: h)
  case Nil
  then show ?case by simp
next
  case (Cons v args)
  let ?h = "flatten_handler fl v h"
  have len: "length ?h = length h"
    by (rule flatten_handler_length)
  have at: "array_at b ?h = (if b = fl then array_at fl h @ steps_of h v else array_at b h)" for b
    using Cons.prems(1) by (rule flatten_handler_at)
  have same: "steps_of ?h w = steps_of h w" if "w \<in> set args" for w
  proof (cases w)
    case (JSRouteDefinition rd)
    with that Cons.prems(2) have "middleware rd \<noteq> fl" by auto
    with JSRouteDefinition show ?thesis by (simp add: at)
  qed simp_all
  have ih: "length (fold (flatten_handler fl) args ?h) = length ?h \<and>
         array_at fl (fold (flatten_handler fl) args ?h) = array_at fl ?h @ concat (map (steps_of ?h) args) \<and>
         (\<forall>b. b \<noteq> fl \<longrightarrow> array_at b (fold (flatten_handler fl) args ?h) = array_at b ?h)"
    using Cons.prems by (intro Cons.IH) (simp_all add: len)
  have m: "map (steps_of ?h) args = map (steps_of h) args"
    using same by simp
  show ?case
    using ih by (simp add: len at m)
qed

lemma wrap_result:
  assumes "\<forall>v \<in> set args. \<forall>rd. v = JSRouteDefinition rd \<longrightarrow> middleware rd < length h"
  shows "fst (wrap register path args h) = register path (concat (map (steps_of h) args))"
    and "\<forall>a < length h. array_at a (snd (wrap register path args h)) = array_at a h"
proof -
  let ?fl = "length h"
  let ?h1 = "h @ [[]]"
  have fl: "?fl < length ?h1" by simp
  have ne: "\<forall>v \<in> set args. \<forall>rd. v = JSRouteDefinition rd \<longrightarrow> middleware rd \<noteq> ?fl"
    using assms by auto
  note ff = fold_flatten [OF fl ne]
  have st: "steps_of ?h1 v = steps_of h v" if "v \<in> set args" for v
  proof (cases v)
    case (JSRouteDefinition rd)
    with that assms have "middleware rd < length h" by auto
    with JSRouteDefinition show ?thesis by (simp add: array_at_def nth_append)
  qed simp_all
  have m: "map (steps_of ?h1) args = map (steps_of h) args"
    using st by simp
  have e: "array_at ?fl ?h1 = []"
    by (simp add: array_at_def)
  show "fst (wrap register path args h) = register path (concat (map (steps_of h) args))"
    using ff by (simp add: wrap_def new_array_def m e)
  show "\<forall>a < length h. array_at a (snd (wrap register path args h)) = array_at a h"
    using ff by (simp add: wrap_def new_array_def) (simp add: array_at_def nth_append)
qed

text \<open>
  Claim C4. A call of a wrapped method passes to the router underneath the path and the
  steps of the arguments in argument order, each route definition standing for the
  elements of its middleware array in their order; no array that existed before the call
  is changed. For the arguments (A, B, C, D), with A and C route definitions and B and D
  functions, the router receives the middleware of A, then B, then the middleware of C,
  then D, and the middleware arrays of A and C are as before. Each route definition's
  middleware array is assumed to be an array of the store.
\<close>

theorem registration_preserves_order:
  "((\<forall>v \<in> set args. \<forall>rd. v = JSRouteDefinition rd \<longrightarrow> middleware rd < length h) \<longrightarrow>
      fst (createTypedRouter router m path args h) =
        router m path (concat (map (steps_of h) args)) \<and>
      (\<forall>a < length h. array_at a (snd (createTypedRouter router m path args h)) = array_at a h)) \<and>
   (brand A = ''RouteDefinition'' \<and> brand C = ''RouteDefinition'' \<and>
    middleware A < length h \<and> middleware C < length h \<longrightarrow>
      fst (createTypedRouter router m path
             [JSRouteDefinition A, JSFunction B, JSRouteDefinition C, JSFunction D] h) =
        router m path (array_at (middleware A) h @ [B] @ array_at (middleware C) h @ [D]) \<and>
      array_at (middleware A)
        (snd (createTypedRouter router m path
               [JSRouteDefinition A, JSFunction B, JSRouteDefinition C, JSFunction D] h)) =
        array_at (middleware A) h \<and>
      array_at (middleware C)
        (snd (createTypedRouter router m path
               [JSRouteDefinition A, JSFunction B, JSRouteDefinition C, JSFunction D] h)) =
        array_at (middleware C) h)"
proof (intro conjI impI)
  assume wf: "\<forall>v \<in> set args. \<forall>rd. v = JSRouteDefinition rd \<longrightarrow> middleware rd < length h"
  show "fst (createTypedRouter router m path args h) =
        router m path (concat (map (steps_of h) args))"
    using wrap_result(1) [where register = "router m" and path = path, OF wf]
    by (simp add: createTypedRouter_def)
  show "\<forall>a < length h. array_at a (snd (createTypedRouter router m path args h)) = array_at a h"
    using wrap_result(2) [where register = "router m" and path = path, OF wf]
    by (simp add: createTypedRouter_def)
next
  let ?args = "[JSRouteDefinition A, JSFunction B, JSRouteDefinition C, JSFunction D]"
  assume a: "brand A = ''RouteDefinition'' \<and> brand C = ''RouteDefinition'' \<and>
    middleware A < length h \<and> middleware C < length h"
  then have wf: "\<forall>v \<in> set ?args. \<forall>rd. v = JSRouteDefinition rd \<longrightarrow> middleware rd < length h"
    by simp
  show "fst (createTypedRouter router m path ?args h) =
        router m path (array_at (middleware A) h @ [B] @ array_at (middleware C) h @ [D])"
    using wrap_result(1) [where register = "router m" and path = path, OF wf] a
    by (simp add: createTypedRouter_def)
  show "array_at (middleware A) (snd (createTypedRouter router m path ?args h)) =
        array_at (middleware A) h"
    using wrap_result(2) [where register = "router m" and path = path, OF wf] a
    by (simp add: createTypedRouter_def)
  show "array_at (middleware C) (snd (createTypedRouter router m path ?args h)) =
        array_at (middleware C) h"
    using wrap_result(2) [where register = "router m" and path = path, OF wf] a
    by (simp add: createTypedRouter_def)
qed

theorem registration_preserves_order_witness:
  "brand def_a = ''RouteDefinition'' \<and> brand def_c = ''RouteDefinition'' \<and>
   middleware def_a < length two_arrays \<and> middleware def_c < length two_arrays \<and>
   fst (createTypedRouter recording_router POST ''/users''
          [JSRouteDefinition def_a, JSFunction step_b, JSRouteDefinition def_c, JSFunction step_d]
          two_arrays) =
     (POST, ''/users'',
      array_at (middleware def_a) two_arrays @ [step_b] @ array_at (middleware def_c) two_arrays @ [step_d]) \<and>
   fst (createTypedRouter recording_router POST ''/users''
          [JSRouteDefinition def_a, JSFunction step_b, JSRouteDefinition def_c, JSFunction step_d]
          two_arrays) =
     (POST, ''/users'',
      concat (map (steps_of two_arrays)
        [JSRouteDefinition def_a, JSFunction step_b, JSRouteDefinition def_c, JSFunction step_d])) \<and>
   array_at (middleware def_a)
     (snd (createTypedRouter recording_router POST ''/users''
            [JSRouteDefinition def_a, JSFunction step_b, JSRouteDefinition def_c, JSFunction step_d]
            two_arrays)) = array_at (middleware def_a) two_arrays \<and>
   array_at (middleware def_c)
     (snd (createTypedRouter recording_router POST ''/users''
            [JSRouteDefinition def_a, JSFunction step_b, JSRouteDefinition def_c, JSFunction step_d]
            two_arrays)) = array_at (middleware def_c) two_arrays"
proof -
  let ?args = "[JSRouteDefinition def_a, JSFunction step_b, JSRouteDefinition def_c, JSFunction step_d]"
  have h1: "brand def_a = ''RouteDefinition'' \<and> brand def_c = ''RouteDefinition'' \<and>
     middleware def_a < length two_arrays \<and> middleware def_c < length two_arrays"
    by simp
  have h2: "\<forall>v \<in> set ?args. \<forall>rd. v = JSRouteDefinition rd \<longrightarrow> middleware rd < length two_arrays"
    by simp
  note t = registration_preserves_order [where args = ?args and h = two_arrays
      and router = recording_router and m = POST and path = "''/users''"
      and A = def_a and B = step_b and C = def_c and D = step_d]
  note g = t [THEN conjunct1, THEN mp, OF h2]
  note s = t [THEN conjunct2, THEN mp, OF h1]
  from g have g1: "fst (createTypedRouter recording_router POST ''/users'' ?args two_arrays) =
     (POST, ''/users'', concat (map (steps_of two_arrays) ?args))"
    by blast
  show ?thesis
    using h1 g1 s by blast
qed

text \<open>
  Claim C8. An argument of a wrapped method that is neither a route definition (an
  object whose \<^verbatim>\<open>__brand\<close> is "RouteDefinition") nor a function contributes nothing:
  the call returns what it returns without that argument, with the same store, wherever
  the argument stands in the list.
\<close>

theorem other_arguments_dropped:
  assumes "\<not> isRouteDefinition v" and "typeof v \<noteq> ''function''"
  shows "createTypedRouter router m path (xs @ v # ys) h =
         createTypedRouter router m path (xs @ ys) h"
  using assms by (simp add: createTypedRouter_def wrap_def flatten_handler_skip)

theorem other_arguments_dropped_witness:
  "\<not> isRouteDefinition (JSString ''step'' :: (int, string) js_value) \<and>
   typeof (JSString ''step'' :: (int, string) js_value) \<noteq> ''function'' \<and>
   createTypedRouter recording_router GET ''/items''
     ([JSFunction step_b] @ JSString ''step'' # [JSFunction step_d]) [] =
   createTypedRouter recording_router GET ''/items'' ([JSFunction step_b] @ [JSFunction step_d]) []"
proof -
  have a: "\<not> isRouteDefinition (JSString ''step'' :: (int, string) js_value)"
    by (simp add: isRouteDefinition_def)
  have b: "typeof (JSString ''step'' :: (int, string) js_value) \<noteq> ''function''"
    by simp
  from other_arguments_dropped [OF a b] a b show ?thesis
    by blast
qed

section \<open>Properties of the route helper\<close>

text \<open>
  Claim C5. The route definition returned by \<^verbatim>\<open>route\<close> carries the schema set it was
  given and the marker "RouteDefinition"; its middleware array is a new array, which
  holds exactly one element, the validation middleware built from the body, query and
  params schemas of the set, when at least one of the three is present, and is empty when
  none is, whatever the response map is; no array that existed before is changed.
\<close>

theorem route_builds_at_most_one_step:
  "schemas (fst (route rs h)) = rs \<and>
   brand (fst (route rs h)) = ''RouteDefinition'' \<and>
   \<not> middleware (fst (route rs h)) < length h \<and>
   array_at (middleware (fst (route rs h))) (snd (route rs h)) =
     (if schemas_body rs \<noteq> None \<or> schemas_query rs \<noteq> None \<or> schemas_params rs \<noteq> None
      then [createValidationMiddleware
              (\<lambda>loc. case loc of Body \<Rightarrow> schemas_body rs
                                | Query \<Rightarrow> schemas_query rs
                                | Params \<Rightarrow> schemas_params rs)]
      else []) \<and>
   (\<forall>a < length h. array_at a (snd (route rs h)) = array_at a h)"
  by (simp add: route_def new_array_def Let_def push_at built_schemas)
     (simp add: array_at_def nth_append)

theorem route_builds_at_most_one_step_witness:
  "array_at (middleware (fst (route body_only []))) (snd (route body_only [])) =
     [createValidationMiddleware
        (\<lambda>loc. case loc of Body \<Rightarrow> schemas_body body_only
                          | Query \<Rightarrow> schemas_query body_only
                          | Params \<Rightarrow> schemas_params body_only)] \<and>
   schemas (fst (route body_only [])) = body_only \<and>
   array_at (middleware (fst (route response_only two_arrays))) (snd (route response_only two_arrays)) = [] \<and>
   schemas (fst (route response_only two_arrays)) = response_only \<and>
   array_at 0 (snd (route response_only two_arrays)) = array_at 0 two_arrays"
proof -
  have p: "schemas_body body_only \<noteq> None \<or> schemas_query body_only \<noteq> None \<or> schemas_params body_only \<noteq> None"
    by simp
  have n: "\<not> (schemas_body response_only \<noteq> None \<or> schemas_query response_only \<noteq> None \<or>
      schemas_params response_only \<noteq> None)"
    by simp
  note t1 = route_builds_at_most_one_step [of body_only "[]"]
  note t2 = route_builds_at_most_one_step [of response_only two_arrays]
  from t1 have a1: "array_at (middleware (fst (route body_only []))) (snd (route body_only [])) =
     [createValidationMiddleware
        (\<lambda>loc. case loc of Body \<Rightarrow> schemas_body body_only
                          | Query \<Rightarrow> schemas_query body_only
                          | Params \<Rightarrow> schemas_params body_only)]"
    unfolding if_P [OF p] by blast
  from t1 have a2: "schemas (fst (route body_only [])) = body_only"
    by blast
  from t2 have b1: "array_at (middleware (fst (route response_only two_arrays)))
      (snd (route response_only two_arrays)) = []"
    unfolding if_not_P [OF n] by blast
  from t2 have b2: "schemas (fst (route response_only two_arrays)) = response_only"
    and b3: "\<forall>a < length two_arrays. array_at a (snd (route response_only two_arrays)) = array_at a two_arrays"
    by blast+
  from b3 have b4: "array_at 0 (snd (route response_only two_arrays)) = array_at 0 two_arrays"
    by simp
  show ?thesis
    using a1 a2 b1 b2 b4 by blast
qed

section \<open>Properties of the fluent builder\<close>

lemma apply_call_builder:
  "middlewares (fst (apply_call c (this, h))) = middlewares this \<and>
   length (snd (apply_call c (this, h))) = length h \<and>
   builder_schema (fst (apply_call c (this, h))) loc =
     (if call_schema loc c = [] then builder_schema this loc else Some (last (call_schema loc c)))"
  by (cases c; cases loc)
     (simp_all add: RouteBuilder_body_def RouteBuilder_query_def RouteBuilder_params_def
        RouteBuilder_response_def RouteBuilder_use_def push_length builder_schema_def)

lemma apply_call_store:
  "array_at a (snd (apply_call c (this, h))) =
     (if a = middlewares this \<and> a < length h then array_at a h @ call_use c else array_at a h)"
  by (cases c)
     (simp_all add: RouteBuilder_body_def RouteBuilder_query_def RouteBuilder_params_def
        RouteBuilder_response_def RouteBuilder_use_def push_at)

lemma apply_calls_snoc: "apply_calls (cs @ [c]) bh = apply_call c (apply_calls cs bh)"
  by (simp add: apply_calls_def)

text \<open>A chain of configuration calls keeps the builder's array address and the size
  of the store, leaves each schema slot with the last schema given for it, and changes
  one array only, the builder's own, by appending the middleware of the \<^verbatim>\<open>use\<close> calls.\<close>

lemma apply_calls_inv:
  "middlewares (fst (apply_calls cs (this, h))) = middlewares this \<and>
   length (snd (apply_calls cs (this, h))) = length h \<and>
   (\<forall>loc. builder_schema (fst (apply_calls cs (this, h))) loc =
      (if schemas_given loc cs = [] then builder_schema this loc else configured cs loc)) \<and>
   (\<forall>a. array_at a (snd (apply_calls cs (this, h))) =
      (if a = middlewares this \<and> a < length h then array_at a h @ used cs else array_at a h))"
proof (induction cs rule: rev_induct)
  case Nil
  show ?case by (simp add: apply_calls_def schemas_given_def used_def)
next
  case (snoc c cs)
  obtain b1 h1 where r: "apply_calls cs (this, h) = (b1, h1)"
    by (cases "apply_calls cs (this, h)")
  from snoc r have m1: "middlewares b1 = middlewares this" and l1: "length h1 = length h"
    and s1: "\<And>loc. builder_schema b1 loc =
      (if schemas_given loc cs = [] then builder_schema this loc else configured cs loc)"
    and a1: "\<And>a. array_at a h1 =
      (if a = middlewares this \<and> a < length h then array_at a h @ used cs else array_at a h)"
    by simp_all
  have sg: "schemas_given loc (cs @ [c]) = schemas_given loc cs @ call_schema loc c" for loc
    by (simp add: schemas_given_def)
  have us: "used (cs @ [c]) = used cs @ call_use c"
    by (simp add: used_def)
  show ?case
    unfolding apply_calls_snoc r
    using apply_call_builder [of c b1 h1] apply_call_store [of _ c b1 h1]
    by (simp add: m1 l1 s1 a1 sg us configured_def apply_call_builder)
qed

lemma builder_schema_eq:
  "(\<lambda>loc. case loc of Body \<Rightarrow> bodySchema this | Query \<Rightarrow> querySchema this | Params \<Rightarrow> paramsSchema this) =
   builder_schema this"
  by (rule ext) (simp add: builder_schema_def)

lemma RouteBuilder_handler_effect:
  "fst (RouteBuilder_handler fn this h) = length h"
  "length (snd (RouteBuilder_handler fn this h)) = Suc (length h)"
  "a < length h \<Longrightarrow> array_at a (snd (RouteBuilder_handler fn this h)) = array_at a h"
  "middlewares this < length h \<Longrightarrow>
   array_at (length h) (snd (RouteBuilder_handler fn this h)) =
     (if bodySchema this \<noteq> None \<or> querySchema this \<noteq> None \<or> paramsSchema this \<noteq> None
      then [createValidationMiddleware (builder_schema this)] else []) @
     array_at (middlewares this) h @ [fn]"
proof -
  show "fst (RouteBuilder_handler fn this h) = length h"
    by (simp add: RouteBuilder_handler_def new_array_def Let_def)
  show "length (snd (RouteBuilder_handler fn this h)) = Suc (length h)"
    by (simp add: RouteBuilder_handler_def new_array_def Let_def push_length)
  show "array_at a (snd (RouteBuilder_handler fn this h)) = array_at a h" if "a < length h"
    using that
    by (simp add: RouteBuilder_handler_def new_array_def Let_def push_at push_length)
       (simp add: array_at_def nth_append)
  show "array_at (length h) (snd (RouteBuilder_handler fn this h)) =
     (if bodySchema this \<noteq> None \<or> querySchema this \<noteq> None \<or> paramsSchema this \<noteq> None
      then [createValidationMiddleware (builder_schema this)] else []) @
     array_at (middlewares this) h @ [fn]" if "middlewares this < length h"
  proof -
    have old: "array_at (middlewares this) (h @ [[]]) = array_at (middlewares this) h"
      using that by (simp add: array_at_def nth_append)
    have new: "array_at (length h) (h @ [[]]) = []"
      by (simp add: array_at_def)
    show ?thesis
      using that
      by (simp add: RouteBuilder_handler_def new_array_def Let_def push_at push_length
            built_schemas builder_schema_eq old new)
  qed
qed

lemma typedRoute_result:
  "middlewares (fst (typedRoute h)) = length h"
  "length (snd (typedRoute h)) = Suc (length h)"
  "array_at (length h) (snd (typedRoute h)) = []"
  "builder_schema (fst (typedRoute h)) loc = None"
  by (simp_all add: typedRoute_def new_array_def array_at_def builder_schema_def split: location.splits)

text \<open>
  Claim C6. For a builder made by \<^verbatim>\<open>typedRoute()\<close> and configured by any chain of
  calls, the array returned by \<^verbatim>\<open>handler(fn)\<close> holds, in this order: one validation
  middleware, built from the schemas in force, exactly when the chain set a body, query
  or params schema; the middleware of the \<^verbatim>\<open>use\<close> calls in call order; and
  \<^verbatim>\<open>fn\<close> last. After response calls only, the array is exactly \<^verbatim>\<open>[fn]\<close>.
\<close>

theorem handler_assembles_steps:
  "(case apply_calls cs (typedRoute h) of (this, h1) \<Rightarrow>
      (case RouteBuilder_handler fn this h1 of (result, h2) \<Rightarrow>
         array_at result h2 =
           (if schemas_given Body cs \<noteq> [] \<or> schemas_given Query cs \<noteq> [] \<or> schemas_given Params cs \<noteq> []
            then [createValidationMiddleware (configured cs)] else []) @
           used cs @ [fn] \<and>
         ((\<forall>c \<in> set cs. is_response_call c) \<longrightarrow> array_at result h2 = [fn])))"
proof -
  obtain b0 h0 where t: "typedRoute h = (b0, h0)"
    by (cases "typedRoute h")
  obtain this h1 where a: "apply_calls cs (b0, h0) = (this, h1)"
    by (cases "apply_calls cs (b0, h0)")
  obtain result h2 where r: "RouteBuilder_handler fn this h1 = (result, h2)"
    by (cases "RouteBuilder_handler fn this h1")
  from t have m0: "middlewares b0 = length h" and l0: "length h0 = Suc (length h)"
    and e0: "array_at (length h) h0 = []" and s0: "\<And>loc. builder_schema b0 loc = None"
    using typedRoute_result [of h] by simp_all
  from apply_calls_inv [of cs b0 h0] a
  have m1: "middlewares this = length h" and l1: "length h1 = Suc (length h)"
    and s1: "\<And>loc. builder_schema this loc = configured cs loc"
    and u1: "array_at (length h) h1 = used cs"
    by (simp_all add: m0 l0 e0 s0 configured_def)
  have sch: "builder_schema this = configured cs"
    using s1 by (rule ext)
  have b: "bodySchema this = configured cs Body" and q: "querySchema this = configured cs Query"
    and p: "paramsSchema this = configured cs Params"
    using s1 [of Body] s1 [of Query] s1 [of Params] by (simp_all add: builder_schema_def)
  have lt: "middlewares this < length h1"
    by (simp add: m1 l1)
  from r have res: "result = length h1"
    using RouteBuilder_handler_effect(1) [of fn this h1] by simp
  have cont: "array_at result h2 =
     (if schemas_given Body cs \<noteq> [] \<or> schemas_given Query cs \<noteq> [] \<or> schemas_given Params cs \<noteq> []
      then [createValidationMiddleware (configured cs)] else []) @ used cs @ [fn]"
    using RouteBuilder_handler_effect(4) [OF lt, of fn] r
    by (simp add: res sch b q p m1 u1 configured_def)
  have only: "array_at result h2 = [fn]" if o: "\<forall>c \<in> set cs. is_response_call c"
  proof -
    have rc: "is_response_call c" if "c \<in> set cs" for c
      using that o by simp
    have "call_schema loc c = []" if "c \<in> set cs" for loc c
    proof -
      from rc [OF that] show ?thesis by (cases c; cases loc) simp_all
    qed
    then have g: "schemas_given loc cs = []" for loc
      by (simp add: schemas_given_def)
    have "call_use c = []" if "c \<in> set cs" for c
    proof -
      from rc [OF that] show ?thesis by (cases c) simp_all
    qed
    then have "used cs = []"
      by (simp add: used_def)
    with cont g show ?thesis by simp
  qed
  show ?thesis
    using cont only by (simp add: t a r)
qed

theorem handler_assembles_steps_witness:
  "(case apply_calls mixed_calls (typedRoute []) of (this, h1) \<Rightarrow>
      (case RouteBuilder_handler step_d this h1 of (result, h2) \<Rightarrow>
         array_at result h2 =
           [createValidationMiddleware (configured mixed_calls)] @ [step_b, step_d] @ [step_d])) \<and>
   (case apply_calls response_calls (typedRoute []) of (this, h1) \<Rightarrow>
      (case RouteBuilder_handler step_b this h1 of (result, h2) \<Rightarrow> array_at result h2 = [step_b]))"
proof -
  have g: "schemas_given Body mixed_calls \<noteq> [] \<or> schemas_given Query mixed_calls \<noteq> [] \<or>
    schemas_given Params mixed_calls \<noteq> []"
    by (simp add: schemas_given_def)
  have u: "used mixed_calls = [step_b, step_d]"
    by (simp add: used_def)
  have r: "\<forall>c \<in> set response_calls. is_response_call c"
    by simp
  note t1 = handler_assembles_steps [where cs = mixed_calls and h = "[]" and fn = step_d]
  note t2 = handler_assembles_steps [where cs = response_calls and h = "[]" and fn = step_b]
  obtain this1 h1 where p1: "apply_calls mixed_calls (typedRoute []) = (this1, h1)"
    by (cases "apply_calls mixed_calls (typedRoute [])")
  obtain result1 k1 where q1: "RouteBuilder_handler step_d this1 h1 = (result1, k1)"
    by (cases "RouteBuilder_handler step_d this1 h1")
  obtain this2 h2 where p2: "apply_calls response_calls (typedRoute []) = (this2, h2)"
    by (cases "apply_calls response_calls (typedRoute [])")
  obtain result2 k2 where q2: "RouteBuilder_handler step_b this2 h2 = (result2, k2)"
    by (cases "RouteBuilder_handler step_b this2 h2")
  from t1 have "array_at result1 k1 =
      [createValidationMiddleware (configured mixed_calls)] @ [step_b, step_d] @ [step_d]"
    unfolding p1 q1 prod.case if_P [OF g] u by (rule conjunct1)
  then have a: "case apply_calls mixed_calls (typedRoute []) of (this, h1) \<Rightarrow>
      (case RouteBuilder_handler step_d this h1 of (result, h2) \<Rightarrow>
         array_at result h2 =
           [createValidationMiddleware (configured mixed_calls)] @ [step_b, step_d] @ [step_d])"
    unfolding p1 q1 prod.case .
  from t2 have "(\<forall>c \<in> set response_calls. is_response_call c) \<longrightarrow> array_at result2 k2 = [step_b]"
    unfolding p2 q2 prod.case by (rule conjunct2)
  with r have "array_at result2 k2 = [step_b]"
    by (rule rev_mp)
  then have b: "case apply_calls response_calls (typedRoute []) of (this, h1) \<Rightarrow>
      (case RouteBuilder_handler step_b this h1 of (result, h2) \<Rightarrow> array_at result h2 = [step_b])"
    unfolding p2 q2 prod.case .
  show ?thesis
    using a b by blast
qed

text \<open>
  Claim C10. For a builder whose middleware array is in the store, the array returned by
  \<^verbatim>\<open>handler(fn)\<close> is new: it is none of the arrays that existed before the call, and
  in particular not the builder's own. Whatever chain of configuration calls follows on
  the builder, the returned array keeps the contents it had when it was returned; a later
  call of \<^verbatim>\<open>handler\<close> returns another array and leaves the first one as it was.
\<close>

theorem handler_result_is_fresh:
  assumes "middlewares this < length h"
  shows "(case RouteBuilder_handler fn this h of (result, h1) \<Rightarrow>
           \<not> result < length h \<and>
           result \<noteq> middlewares this \<and>
           (\<forall>cs. case apply_calls cs (this, h1) of (this', h2) \<Rightarrow>
              array_at result h2 = array_at result h1 \<and>
              (\<forall>fn'. case RouteBuilder_handler fn' this' h2 of (result', h3) \<Rightarrow>
                 result' \<noteq> result \<and> array_at result h3 = array_at result h1)))"
proof -
  obtain result h1 where r: "RouteBuilder_handler fn this h = (result, h1)"
    by (cases "RouteBuilder_handler fn this h")
  from r have res: "result = length h" and l1: "length h1 = Suc (length h)"
    using RouteBuilder_handler_effect(1,2) [of fn this h] by simp_all
  have ne: "result \<noteq> middlewares this"
    using assms res by simp
  have later: "case apply_calls cs (this, h1) of (this', h2) \<Rightarrow>
      array_at result h2 = array_at result h1 \<and>
      (\<forall>fn'. case RouteBuilder_handler fn' this' h2 of (result', h3) \<Rightarrow>
                 result' \<noteq> result \<and> array_at result h3 = array_at result h1)" for cs
  proof -
    obtain this' h2 where a: "apply_calls cs (this, h1) = (this', h2)"
      by (cases "apply_calls cs (this, h1)")
    from apply_calls_inv [of cs this h1] a
    have l2: "length h2 = length h1"
      and a2: "\<And>a. array_at a h2 =
        (if a = middlewares this \<and> a < length h1 then array_at a h1 @ used cs else array_at a h1)"
      by simp_all
    have same: "array_at result h2 = array_at result h1"
      using ne by (simp add: a2)
    have "case RouteBuilder_handler fn' this' h2 of (result', h3) \<Rightarrow>
            result' \<noteq> result \<and> array_at result h3 = array_at result h1" for fn'
    proof -
      obtain result' h3 where h: "RouteBuilder_handler fn' this' h2 = (result', h3)"
        by (cases "RouteBuilder_handler fn' this' h2")
      from h have "result' = length h2"
        using RouteBuilder_handler_effect(1) [of fn' this' h2] by simp
      moreover have "array_at result h3 = array_at result h2"
        using RouteBuilder_handler_effect(3) [of result h2 fn' this'] h by (simp add: res l2 l1)
      ultimately show ?thesis
        using same by (simp add: h res l2 l1)
    qed
    with same show ?thesis
      by (simp add: a)
  qed
  have fresh: "\<not> result < length h"
    by (simp add: res)
  show ?thesis
    using fresh ne later by (simp add: r)
qed

theorem handler_result_is_fresh_witness:
  "middlewares fresh_builder < length [[step_b]] \<and>
   (case RouteBuilder_handler step_d fresh_builder [[step_b]] of (result, h1) \<Rightarrow>
      \<not> result < length [[step_b]] \<and>
      result \<noteq> middlewares fresh_builder \<and>
      (\<forall>cs. case apply_calls cs (fresh_builder, h1) of (this', h2) \<Rightarrow>
         array_at result h2 = array_at result h1 \<and>
         (\<forall>fn'. case RouteBuilder_handler fn' this' h2 of (result', h3) \<Rightarrow>
            result' \<noteq> result \<and> array_at result h3 = array_at result h1)))"
proof -
  have h: "middlewares fresh_builder < length [[step_b]]"
    by simp
  from handler_result_is_fresh [OF h, where fn = step_d] h show ?thesis
    by blast
qed

end
